theory Spec2Isabelle
  imports Complex_Main "HOL-Library.Word"
begin

section \<open>The JNI shim for the hand landmarker and the gesture recognizer\<close>

text \<open>
  A shallow embedding of \<^verbatim>\<open>build-scripts/mediapipe-patches/mediapipe_jni.cc\<close>.
  The engine's result structures are C structs holding an array pointer and a
  \<^verbatim>\<open>uint32_t\<close> element count; here the array is a list and the count a 32-bit word.
  A \<^verbatim>\<open>float\<close> is a real number: the shim only copies floats and converts the hand
  count (0, 1 or 2), it never computes with them.
\<close>

subsection \<open>Result structures of the engine\<close>

record Category =
  score :: real
  category_name :: "string option"

record Categories =
  categories :: "Category list"
  categories_count :: "32 word"

text \<open>The fields \<^verbatim>\<open>x\<close>, \<^verbatim>\<open>y\<close>, \<^verbatim>\<open>z\<close> of a landmark.\<close>

record NormalizedLandmark =
  landmark_x :: real
  landmark_y :: real
  landmark_z :: real

record NormalizedLandmarks =
  landmarks :: "NormalizedLandmark list"
  landmarks_count :: "32 word"

record HandLandmarkerResult =
  handedness :: "Categories list"
  handedness_count :: "32 word"
  hand_landmarks :: "NormalizedLandmarks list"
  hand_landmarks_count :: "32 word"

text \<open>
  The gesture result has the same three fields and the gestures beside them, so it is
  the extension of the landmarker's result by two fields.
\<close>

record GestureRecognizerResult = HandLandmarkerResult +
  gestures :: "Categories list"
  gestures_count :: "32 word"

text \<open>
  What the engine hands over: every count is the length of its array, and the per-hand
  counts, which the shim converts with \<^verbatim>\<open>(int)\<close>, are at most \<^verbatim>\<open>INT_MAX\<close>
  (the engine reports at most \<^verbatim>\<open>num_hands\<close> hands, itself an \<^verbatim>\<open>int\<close>).
\<close>

definition count_fits_int :: "32 word \<Rightarrow> bool" where
  "count_fits_int c = (0 \<le> sint c)"

definition wf_Categories :: "Categories \<Rightarrow> bool" where
  "wf_Categories cs = (length (categories cs) = unat (categories_count cs))"

definition wf_NormalizedLandmarks :: "NormalizedLandmarks \<Rightarrow> bool" where
  "wf_NormalizedLandmarks lms = (length (landmarks lms) = unat (landmarks_count lms))"

definition hl_engine_result :: "'a HandLandmarkerResult_scheme \<Rightarrow> bool" where
  "hl_engine_result result =
     (length (handedness result) = unat (handedness_count result) \<and>
      length (hand_landmarks result) = unat (hand_landmarks_count result) \<and>
      list_all wf_Categories (handedness result) \<and>
      list_all wf_NormalizedLandmarks (hand_landmarks result) \<and>
      count_fits_int (handedness_count result) \<and>
      count_fits_int (hand_landmarks_count result))"

definition gr_engine_result :: "GestureRecognizerResult \<Rightarrow> bool" where
  "gr_engine_result result =
     (hl_engine_result result \<and>
      length (gestures result) = unat (gestures_count result) \<and>
      list_all wf_Categories (gestures result) \<and>
      count_fits_int (gestures_count result))"

subsection \<open>Packing\<close>

text \<open>
  What stops the native code instead of returning: reading the elements of the null array
  that \<^verbatim>\<open>NewFloatArray\<close> returns for a negative size, calling a method through a
  null method id or a null or deleted reference, handing the engine a pointer to an
  instance that is not alive, and the engine reading past the end of the pixel buffer.
\<close>

datatype fault = NullArrayAccess | InvalidMethodCall | InvalidHandle | BufferOverread

text \<open>A new Java array is filled with zeros (null for an object array).\<close>

definition NewFloatArray :: "int \<Rightarrow> real list option" where
  "NewFloatArray n = (if n < 0 then None else Some (replicate (nat n) 0))"

definition NewObjectArray :: "int \<Rightarrow> string option list option" where
  "NewObjectArray n = (if n < 0 then None else Some (replicate (nat n) None))"

text \<open>
  Lines 91-98 and 155-162: the handedness of hand \<open>h\<close>. \<^verbatim>\<open>name && name[0] == 'R'\<close>
  on a C string: the first character of the empty string is the terminator.
\<close>

definition first_char_is_R :: "string option \<Rightarrow> bool" where
  "first_char_is_R name =
     (case name of None \<Rightarrow> False | Some [] \<Rightarrow> False | Some (c # _) \<Rightarrow> c = CHR ''R'')"

definition handednessValue :: "'a HandLandmarkerResult_scheme \<Rightarrow> int \<Rightarrow> real" where
  "handednessValue result h =
     (if h < sint (handedness_count result) \<and>
         0 < categories_count (handedness result ! nat h)
      then (if first_char_is_R (category_name (categories (handedness result ! nat h) ! 0))
            then 1 else 0)
      else 0)"

text \<open>
  Lines 102-106 and 182-186: the loop over the landmarks of one hand, \<open>off\<close> being 1 in
  the landmarker and 2 in the gesture recognizer. \<open>i\<close> is the loop counter.
\<close>

function write_landmarks ::
  "nat \<Rightarrow> NormalizedLandmarks \<Rightarrow> nat \<Rightarrow> nat \<Rightarrow> real list \<Rightarrow> real list" where
  "write_landmarks off lms base i buf =
     (if i < unat (landmarks_count lms) \<and> i < 21
      then write_landmarks off lms base (i + 1)
             (buf[base + off + i * 3 := landmark_x (landmarks lms ! i),
                  base + off + i * 3 + 1 := landmark_y (landmarks lms ! i),
                  base + off + i * 3 + 2 := landmark_z (landmarks lms ! i)])
      else buf)"
  by pat_completeness auto
termination
  by (relation "measure (\<lambda>(off, lms, base, i, buf). 21 - i)") auto

declare write_landmarks.simps [simp del]

text \<open>Lines 89-106: the body of the landmarker's loop over the hands.\<close>

definition hl_pack_hand :: "HandLandmarkerResult \<Rightarrow> int \<Rightarrow> real list \<Rightarrow> real list" where
  "hl_pack_hand result h buf =
     (let base = nat (1 + h * 64);
          buf = buf[base := handednessValue result h]
      in write_landmarks 1 (hand_landmarks result ! nat h) base 0 buf)"

function hl_hand_loop ::
  "HandLandmarkerResult \<Rightarrow> int \<Rightarrow> int \<Rightarrow> real list \<Rightarrow> real list" where
  "hl_hand_loop result numHands h buf =
     (if h < numHands then hl_hand_loop result numHands (h + 1) (hl_pack_hand result h buf)
      else buf)"
  by pat_completeness auto
termination
  by (relation "measure (\<lambda>(result, numHands, h, buf). nat (numHands - h))") auto

declare hl_hand_loop.simps [simp del]

text \<open>Lines 79-107: the buffer of a result that has passed the test of line 78.\<close>

definition hl_pack :: "HandLandmarkerResult \<Rightarrow> fault + real list" where
  "hl_pack result =
     (let numHands = sint (hand_landmarks_count result);
          numHands = (if numHands > 2 then 2 else numHands);
          arraySize = 1 + numHands * 64
      in case NewFloatArray arraySize of
           None \<Rightarrow> Inl NullArrayAccess
         | Some buf \<Rightarrow> Inr (hl_hand_loop result numHands 0 (buf[0 := of_int numHands])))"

text \<open>
  Lines 165-179: the gesture of hand \<open>h\<close>, its score and its name (null when the hand
  has no gesture category).
\<close>

definition gesture_of :: "GestureRecognizerResult \<Rightarrow> int \<Rightarrow> real \<times> string option" where
  "gesture_of result h =
     (if h < sint (gestures_count result) \<and>
         0 < categories_count (gestures result ! nat h)
      then (score (categories (gestures result ! nat h) ! 0),
            category_name (categories (gestures result ! nat h) ! 0))
      else (0, None))"

text \<open>Lines 153-186: the body of the gesture recognizer's loop over the hands.\<close>

definition gr_pack_hand ::
  "GestureRecognizerResult \<Rightarrow> int \<Rightarrow> real list \<times> string option list \<Rightarrow>
   real list \<times> string option list" where
  "gr_pack_hand result h bn =
     (let (buf, jNames) = bn;
          perHand = 65;
          base = nat (1 + h * perHand);
          buf = buf[base := handednessValue result h];
          (gestureScore, gestureName) = gesture_of result h;
          buf = buf[base + 1 := gestureScore];
          jNames = (case gestureName of
                      None \<Rightarrow> jNames
                    | Some name \<Rightarrow> jNames[nat h := Some name])
      in (write_landmarks 2 (hand_landmarks result ! nat h) base 0 buf, jNames))"

function gr_hand_loop ::
  "GestureRecognizerResult \<Rightarrow> int \<Rightarrow> int \<Rightarrow> real list \<times> string option list \<Rightarrow>
   real list \<times> string option list" where
  "gr_hand_loop result numHands h bn =
     (if h < numHands then gr_hand_loop result numHands (h + 1) (gr_pack_hand result h bn)
      else bn)"
  by pat_completeness auto
termination
  by (relation "measure (\<lambda>(result, numHands, h, bn). nat (numHands - h))") auto

declare gr_hand_loop.simps [simp del]

text \<open>Lines 138-187: the buffer and the names of a result that has passed line 137.\<close>

definition gr_pack ::
  "GestureRecognizerResult \<Rightarrow> fault + (real list \<times> string option list)" where
  "gr_pack result =
     (let numHands = sint (hand_landmarks_count result);
          numHands = (if numHands > 2 then 2 else numHands);
          perHand = 65;
          arraySize = 1 + numHands * perHand
      in case NewFloatArray arraySize of
           None \<Rightarrow> Inl NullArrayAccess
         | Some buf \<Rightarrow>
             (case NewObjectArray numHands of
                None \<Rightarrow> Inl NullArrayAccess
              | Some jNames \<Rightarrow>
                  Inr (gr_hand_loop result numHands 0 (buf[0 := of_int numHands], jNames))))"

subsection \<open>The specification's view of a result\<close>

text \<open>
  The specification's words for the handedness: the label of the first handedness
  category of hand \<open>h\<close>, absent when the hand has no handedness entry, when the entry
  has no category, or when the label is null.
\<close>

definition spec_first_handedness_label ::
  "'a HandLandmarkerResult_scheme \<Rightarrow> nat \<Rightarrow> string option" where
  "spec_first_handedness_label result h =
     (if h < length (handedness result)
      then (case categories (handedness result ! h) of
              [] \<Rightarrow> None
            | c # _ \<Rightarrow> category_name c)
      else None)"

text \<open>A hand without its points beyond the 21st.\<close>

definition keep_21 :: "NormalizedLandmarks \<Rightarrow> NormalizedLandmarks" where
  "keep_21 lms = lms\<lparr>landmarks := take 21 (landmarks lms),
                      landmarks_count := min (landmarks_count lms) 21\<rparr>"

subsection \<open>The Java runtime and the engine, as the shim reaches them\<close>

type_synonym jobject = nat
type_synonym jref = nat
type_synonym handle = nat
type_synonym image = nat
type_synonym jint = "32 word"
type_synonym jlong = "64 word"
type_synonym jbyte = "8 word"
type_synonym MpStatus = int

definition kMpOk :: MpStatus where
  "kMpOk = 0"

datatype JavaVM = JavaVM

text \<open>A method id, by the name and the signature it was looked up with.\<close>

datatype jmethodID = MethodID string string

datatype jni_code = JNI_OK | JNI_EDETACHED | JNI_EVERSION

text \<open>
  What the shim does that can be seen from outside: attaching and detaching the engine's
  thread, calling \<^verbatim>\<open>onResult\<close> on an object (with the float array or null, for the
  gesture callback also the array of names or null, and the timestamp), throwing a
  \<^verbatim>\<open>RuntimeException\<close>, and writing a line to \<^verbatim>\<open>stderr\<close>.
\<close>

datatype event =
    AttachCurrentThread
  | DetachCurrentThread
  | HlOnResult jobject "real list option" jlong
  | GrOnResult jobject "real list option" "string option list option" jlong
  | ThrowNew string
  | Stderr string

text \<open>
  The five globals of the shim, and what it touches of the runtime and of the engine: the
  live global references of the JVM with the object each one refers to, the state of the
  engine's callback thread (attached or not, and its live local references), the live
  instances of the engine, and the native images that have been created and neither
  consumed nor freed. A pointer is a number, 0 the null pointer.
\<close>

record shim_state =
  g_jvm :: "JavaVM option"
  g_hl_callback :: "jref option"
  g_hl_onResult :: "jmethodID option"
  g_gr_callback :: "jref option"
  g_gr_onResult :: "jmethodID option"
  global_refs :: "(jref \<times> jobject) list"
  next_ref :: jref
  engine_thread_attached :: bool
  engine_thread_local_refs :: nat
  landmarkers :: "handle set"
  recognizers :: "handle set"
  owned_images :: "image list"
  events :: "event list"

definition emit :: "event \<Rightarrow> shim_state \<Rightarrow> shim_state" where
  "emit e s = s\<lparr>events := events s @ [e]\<rparr>"

definition NewGlobalRef :: "jobject \<Rightarrow> shim_state \<Rightarrow> jref \<times> shim_state" where
  "NewGlobalRef obj s =
     (next_ref s,
      s\<lparr>global_refs := global_refs s @ [(next_ref s, obj)], next_ref := next_ref s + 1\<rparr>)"

definition DeleteGlobalRef :: "jref \<Rightarrow> shim_state \<Rightarrow> shim_state" where
  "DeleteGlobalRef r s = s\<lparr>global_refs := filter (\<lambda>p. fst p \<noteq> r) (global_refs s)\<rparr>"

text \<open>Lines 43-46.\<close>

definition throw_exception :: "string \<Rightarrow> shim_state \<Rightarrow> shim_state" where
  "throw_exception msg s = emit (ThrowNew msg) s"

text \<open>
  \<^verbatim>\<open>GetEnv\<close> on the engine's thread: detached, or attached with the version supported or
  not (\<open>version_ok\<close>, the JVM's answer).
\<close>

definition GetEnv :: "bool \<Rightarrow> shim_state \<Rightarrow> jni_code" where
  "GetEnv version_ok s =
     (if \<not> engine_thread_attached s then JNI_EDETACHED
      else if version_ok then JNI_OK else JNI_EVERSION)"

text \<open>
  Lines 49-62. The result is \<open>None\<close> for a null \<^verbatim>\<open>env\<close>, else the flag
  \<^verbatim>\<open>needs_detach\<close>. \<open>attach_ok\<close> is whether \<^verbatim>\<open>AttachCurrentThread\<close> succeeds.
\<close>

definition attach_jvm :: "bool \<Rightarrow> bool \<Rightarrow> shim_state \<Rightarrow> bool option \<times> shim_state" where
  "attach_jvm version_ok attach_ok s =
     (let result = GetEnv version_ok s
      in if result = JNI_EDETACHED
         then (if \<not> attach_ok then (None, s)
               else (Some True, emit AttachCurrentThread (s\<lparr>engine_thread_attached := True\<rparr>)))
         else if result \<noteq> JNI_OK then (None, s)
         else (Some False, s))"

subsection \<open>The hand landmarker's callback\<close>

text \<open>Lines 76-110: the array handed to Java, null unless line 78 lets the result in.\<close>

definition hl_result_array ::
  "MpStatus \<Rightarrow> HandLandmarkerResult option \<Rightarrow> fault + real list option" where
  "hl_result_array status result =
     (case result of
        None \<Rightarrow> Inr None
      | Some r \<Rightarrow>
          if status = kMpOk \<and> 0 < hand_landmarks_count r
          then (case hl_pack r of Inl f \<Rightarrow> Inl f | Inr buf \<Rightarrow> Inr (Some buf))
          else Inr None)"

text \<open>
  Lines 112-113: \<^verbatim>\<open>CallVoidMethod\<close> through the global reference and the method id.
\<close>

definition hl_CallVoidMethod :: "real list option \<Rightarrow> jlong \<Rightarrow> shim_state \<Rightarrow> fault + shim_state" where
  "hl_CallVoidMethod jResult timestamp_ms s =
     (case (g_hl_callback s, g_hl_onResult s) of
        (Some r, Some m) \<Rightarrow>
          (case map_of (global_refs s) r of
             Some obj \<Rightarrow> Inr (emit (HlOnResult obj jResult timestamp_ms) s)
           | None \<Rightarrow> Inl InvalidMethodCall)
      | _ \<Rightarrow> Inl InvalidMethodCall)"

text \<open>
  Lines 68-117, run by the engine on its own thread. The image the engine passes is not
  used. The array is a local reference of that thread from its creation to line 115.
\<close>

definition hl_on_result ::
  "bool \<Rightarrow> bool \<Rightarrow> MpStatus \<Rightarrow> HandLandmarkerResult option \<Rightarrow> jlong \<Rightarrow> shim_state \<Rightarrow>
   fault + shim_state" where
  "hl_on_result version_ok attach_ok status result timestamp_ms s =
     (if g_jvm s = None \<or> g_hl_callback s = None then Inr s
      else case attach_jvm version_ok attach_ok s of
        (None, s) \<Rightarrow> Inr s
      | (Some needs_detach, s) \<Rightarrow>
          (case hl_result_array status result of
             Inl f \<Rightarrow> Inl f
           | Inr jResult \<Rightarrow>
               (let s = (if jResult \<noteq> None
                         then s\<lparr>engine_thread_local_refs := engine_thread_local_refs s + 1\<rparr>
                         else s)
                in case hl_CallVoidMethod jResult timestamp_ms s of
                     Inl f \<Rightarrow> Inl f
                   | Inr s \<Rightarrow>
                       (let s = (if jResult \<noteq> None
                                 then s\<lparr>engine_thread_local_refs :=
                                          engine_thread_local_refs s - 1\<rparr>
                                 else s);
                            s = (if needs_detach
                                 then emit DetachCurrentThread
                                        (s\<lparr>engine_thread_attached := False\<rparr>)
                                 else s)
                        in Inr s))))"

subsection \<open>The gesture recognizer's delivery\<close>

text \<open>Lines 134-190: the two arrays handed to Java, both null unless line 137 lets the result in.\<close>

definition gr_result_arrays ::
  "GestureRecognizerResult option \<Rightarrow>
   fault + (real list option \<times> string option list option)" where
  "gr_result_arrays result =
     (case result of
        None \<Rightarrow> Inr (None, None)
      | Some r \<Rightarrow>
          if 0 < hand_landmarks_count r
          then (case gr_pack r of
                  Inl f \<Rightarrow> Inl f
                | Inr (buf, jNames) \<Rightarrow> Inr (Some buf, Some jNames))
          else Inr (None, None))"

text \<open>Lines 192-193. The callback is not tested for null here.\<close>

definition gr_CallVoidMethod ::
  "real list option \<Rightarrow> string option list option \<Rightarrow> jlong \<Rightarrow> shim_state \<Rightarrow>
   fault + shim_state" where
  "gr_CallVoidMethod jResult jNames timestamp_ms s =
     (case (g_gr_callback s, g_gr_onResult s) of
        (Some r, Some m) \<Rightarrow>
          (case map_of (global_refs s) r of
             Some obj \<Rightarrow> Inr (emit (GrOnResult obj jResult jNames timestamp_ms) s)
           | None \<Rightarrow> Inl InvalidMethodCall)
      | _ \<Rightarrow> Inl InvalidMethodCall)"

text \<open>
  Lines 132-197, run on the Java thread inside the native method; the local references
  it makes there are the JVM's to release when the native method returns.
\<close>

definition gr_deliver_result ::
  "GestureRecognizerResult option \<Rightarrow> jlong \<Rightarrow> shim_state \<Rightarrow> fault + shim_state" where
  "gr_deliver_result result timestamp_ms s =
     (case gr_result_arrays result of
        Inl f \<Rightarrow> Inl f
      | Inr (jResult, jNames) \<Rightarrow> gr_CallVoidMethod jResult jNames timestamp_ms s)"

subsection \<open>The engine\<close>

text \<open>
  The engine is an external collaborator: its code is not in the repository, and the
  shim reaches it through the calls below. Each call answers with a status (and an error
  message, which the shim frees or prints); the answer is an argument of the model.
\<close>

text \<open>
  Modelled from the spec: the frame adapter "wraps a raw byte buffer + width/height into
  the engine's internal image representation", and the "buffer length must be at least
  width * height * 3". The engine is told the data size and is given a pointer: told a
  size larger than the buffer, it reads past the end of the buffer. The image it creates
  is the caller's until an invocation consumes it or the caller frees it. On a failure
  the image pointer stays null.
\<close>

definition MpImageCreateFromUint8Data ::
  "MpStatus \<times> image \<Rightarrow> jbyte list \<Rightarrow> int \<Rightarrow> shim_state \<Rightarrow>
   fault + (MpStatus \<times> image \<times> shim_state)" where
  "MpImageCreateFromUint8Data answer pixels dataSize s =
     (let (status, img) = answer
      in if status \<noteq> kMpOk then Inr (status, 0, s)
         else if int (length pixels) < dataSize then Inl BufferOverread
         else Inr (status, img, s\<lparr>owned_images := img # owned_images s\<rparr>))"

text \<open>Modelled from the spec: releasing a native image.\<close>

definition MpImageFree :: "image \<Rightarrow> shim_state \<Rightarrow> shim_state" where
  "MpImageFree img s = s\<lparr>owned_images := remove1 img (owned_images s)\<rparr>"

text \<open>
  Modelled from the spec: "On success, ownership of the created native image passes into
  the invocation that consumes it (async submit or sync call)"; when the invocation
  fails the image is still the caller's. A handle whose instance is not alive points to
  freed memory, and the call is a fault.
\<close>

definition MpHandLandmarkerDetectAsync ::
  "MpStatus \<Rightarrow> handle \<Rightarrow> image \<Rightarrow> shim_state \<Rightarrow> fault + (MpStatus \<times> shim_state)" where
  "MpHandLandmarkerDetectAsync status landmarker img s =
     (if landmarker \<notin> landmarkers s then Inl InvalidHandle
      else if status = kMpOk
           then Inr (status, s\<lparr>owned_images := remove1 img (owned_images s)\<rparr>)
           else Inr (status, s))"

text \<open>
  Modelled from the spec: the synchronous call, with the same passing of the image as
  the asynchronous submit. The result it fills is an argument of the native method.
\<close>

definition MpGestureRecognizerRecognizeForVideo ::
  "MpStatus \<Rightarrow> handle \<Rightarrow> image \<Rightarrow> shim_state \<Rightarrow> fault + (MpStatus \<times> shim_state)" where
  "MpGestureRecognizerRecognizeForVideo status recognizer img s =
     (if recognizer \<notin> recognizers s then Inl InvalidHandle
      else if status = kMpOk
           then Inr (status, s\<lparr>owned_images := remove1 img (owned_images s)\<rparr>)
           else Inr (status, s))"

text \<open>
  Modelled from the spec: close "releases the native engine instance". The status and
  the message of the engine's close are dropped by the shim. A handle whose instance has
  been released points to freed memory, and closing it again is a fault.
\<close>

definition MpHandLandmarkerClose :: "handle \<Rightarrow> shim_state \<Rightarrow> fault + shim_state" where
  "MpHandLandmarkerClose landmarker s =
     (if landmarker \<in> landmarkers s
      then Inr (s\<lparr>landmarkers := landmarkers s - {landmarker}\<rparr>)
      else Inl InvalidHandle)"

text \<open>Modelled from the spec: the close of the gesture recognizer, as the landmarker's.\<close>

definition MpGestureRecognizerClose :: "handle \<Rightarrow> shim_state \<Rightarrow> fault + shim_state" where
  "MpGestureRecognizerClose recognizer s =
     (if recognizer \<in> recognizers s
      then Inr (s\<lparr>recognizers := recognizers s - {recognizer}\<rparr>)
      else Inl InvalidHandle)"

subsection \<open>The native methods\<close>

text \<open>Lines 205-208.\<close>

definition JNI_OnLoad :: "JavaVM \<Rightarrow> shim_state \<Rightarrow> shim_state" where
  "JNI_OnLoad vm s = s\<lparr>g_jvm := Some vm\<rparr>"

text \<open>
  Lines 247-251 and 351-355: the message of the exception, cut by \<^verbatim>\<open>snprintf\<close> to the
  511 characters that fit the buffer.
\<close>

definition create_failed_message :: "string \<Rightarrow> string option \<Rightarrow> string" where
  "create_failed_message what error_msg =
     take 511 (what @ '' failed: '' @
       (case error_msg of Some m \<Rightarrow> m | None \<Rightarrow> ''unknown error''))"

text \<open>
  Lines 212-256. \<open>method_found\<close> is whether the class of the callback has
  \<^verbatim>\<open>onResult([FJ)V\<close>; \<open>answer\<close> is the engine's answer to the creation: the status, the
  pointer to the new instance and the error message. The callback is a Java object, not
  null. The options the engine is given
  (live stream mode, two hands, the three confidences, the callback \<open>hl_on_result\<close>) are
  the engine's to keep. The result is the handle, 0 after an exception.
\<close>

definition nativeCreateLandmarker ::
  "bool \<Rightarrow> MpStatus \<times> handle \<times> string option \<Rightarrow> string \<Rightarrow> jobject \<Rightarrow> shim_state \<Rightarrow>
   handle \<times> shim_state" where
  "nativeCreateLandmarker method_found answer modelPath callback s =
     (let s = (case g_hl_callback s of Some r \<Rightarrow> DeleteGlobalRef r s | None \<Rightarrow> s);
          (r, s) = NewGlobalRef callback s;
          s = s\<lparr>g_hl_callback := Some r\<rparr>;
          s = s\<lparr>g_hl_onResult :=
                 (if method_found then Some (MethodID ''onResult'' ''([FJ)V'') else None)\<rparr>
      in if g_hl_onResult s = None
         then (0, throw_exception ''ResultCallback.onResult([FJ)V method not found'' s)
         else (let (status, landmarker, error_msg) = answer
               in if status \<noteq> kMpOk
                  then (0, throw_exception
                             (create_failed_message ''MpHandLandmarkerCreate'' error_msg) s)
                  else (landmarker, s\<lparr>landmarkers := insert landmarker (landmarkers s)\<rparr>)))"

text \<open>
  Lines 258-289. \<open>created\<close> is the engine's answer to the image creation (the status and
  the pointer to the image), \<open>submitted\<close> its answer to the submission.
\<close>

definition nativeDetectAsync ::
  "MpStatus \<times> image \<Rightarrow> MpStatus \<Rightarrow> handle \<Rightarrow> jbyte list \<Rightarrow> jint \<Rightarrow> jint \<Rightarrow> jlong \<Rightarrow>
   shim_state \<Rightarrow> fault + shim_state" where
  "nativeDetectAsync created submitted landmarkerPtr pixelData width height timestampMs s =
     (let dataSize = sint (width * height * 3)
      in case MpImageCreateFromUint8Data created pixelData dataSize s of
           Inl f \<Rightarrow> Inl f
         | Inr (status, img, s) \<Rightarrow>
             if status \<noteq> kMpOk then Inr s
             else (case MpHandLandmarkerDetectAsync submitted landmarkerPtr img s of
                     Inl f \<Rightarrow> Inl f
                   | Inr (status, s) \<Rightarrow>
                       if status \<noteq> kMpOk then Inr (MpImageFree img s) else Inr s))"

text \<open>Lines 291-305.\<close>

definition nativeCloseLandmarker :: "handle \<Rightarrow> shim_state \<Rightarrow> fault + shim_state" where
  "nativeCloseLandmarker landmarkerPtr s =
     (case MpHandLandmarkerClose landmarkerPtr s of
        Inl f \<Rightarrow> Inl f
      | Inr s \<Rightarrow>
          Inr (case g_hl_callback s of
                 Some r \<Rightarrow> (DeleteGlobalRef r s)\<lparr>g_hl_callback := None, g_hl_onResult := None\<rparr>
               | None \<Rightarrow> s))"

text \<open>
  Lines 309-360, as the landmarker's creation; the engine is given video mode and
  \<open>numHands\<close> hands, and no callback.
\<close>

definition nativeCreateGestureRecognizer ::
  "bool \<Rightarrow> MpStatus \<times> handle \<times> string option \<Rightarrow> string \<Rightarrow> jint \<Rightarrow> jobject \<Rightarrow> shim_state \<Rightarrow>
   handle \<times> shim_state" where
  "nativeCreateGestureRecognizer method_found answer modelPath numHands callback s =
     (let s = (case g_gr_callback s of Some r \<Rightarrow> DeleteGlobalRef r s | None \<Rightarrow> s);
          (r, s) = NewGlobalRef callback s;
          s = s\<lparr>g_gr_callback := Some r\<rparr>;
          s = s\<lparr>g_gr_onResult :=
                 (if method_found
                  then Some (MethodID ''onResult'' ''([F[Ljava/lang/String;J)V'')
                  else None)\<rparr>
      in if g_gr_onResult s = None
         then (0, throw_exception
                    ''GestureCallback.onResult([F[Ljava/lang/String;J)V not found'' s)
         else (let (status, recognizer, error_msg) = answer
               in if status \<noteq> kMpOk
                  then (0, throw_exception
                             (create_failed_message ''MpGestureRecognizerCreate'' error_msg) s)
                  else (recognizer, s\<lparr>recognizers := insert recognizer (recognizers s)\<rparr>)))"

text \<open>
  Lines 362-403. \<open>created\<close> is the engine's answer to the image creation (status, image,
  error message), \<open>recognized\<close> its answer to the recognition (status, result, error
  message). The result is \<^verbatim>\<open>JNI_TRUE\<close> or \<^verbatim>\<open>JNI_FALSE\<close>. The memory of the result,
  which line 400 gives back to the engine, is not part of the state.
\<close>

definition nativeRecognizeGestureForVideo ::
  "MpStatus \<times> image \<times> string option \<Rightarrow>
   MpStatus \<times> GestureRecognizerResult \<times> string option \<Rightarrow>
   handle \<Rightarrow> jbyte list \<Rightarrow> jint \<Rightarrow> jint \<Rightarrow> jlong \<Rightarrow> shim_state \<Rightarrow>
   fault + (bool \<times> shim_state)" where
  "nativeRecognizeGestureForVideo created recognized recognizerPtr pixelData width height
     timestampMs s =
     (let dataSize = sint (width * height * 3);
          (created_status, created_image, created_msg) = created;
          (recognized_status, result, recognized_msg) = recognized
      in case MpImageCreateFromUint8Data (created_status, created_image) pixelData dataSize s of
           Inl f \<Rightarrow> Inl f
         | Inr (status, img, s) \<Rightarrow>
             if status \<noteq> kMpOk
             then Inr (False,
                       emit (Stderr (''[MediaPipe JNI] GR image create failed: '' @
                          (case created_msg of Some m \<Rightarrow> m | None \<Rightarrow> ''unknown'') @
                          [CHR 0x0A])) s)
             else (case MpGestureRecognizerRecognizeForVideo recognized_status recognizerPtr
                          img s of
                     Inl f \<Rightarrow> Inl f
                   | Inr (status, s) \<Rightarrow>
                       if status \<noteq> kMpOk
                       then Inr (False,
                                 emit (Stderr (''[JNI] GR err: '' @
                                    (case recognized_msg of Some m \<Rightarrow> m | None \<Rightarrow> ''?'') @
                                    [CHR 0x0A])) s)
                       else (case gr_deliver_result (Some result) timestampMs s of
                               Inl f \<Rightarrow> Inl f
                             | Inr s \<Rightarrow> Inr (True, s))))"

text \<open>Lines 405-419.\<close>

definition nativeCloseGestureRecognizer :: "handle \<Rightarrow> shim_state \<Rightarrow> fault + shim_state" where
  "nativeCloseGestureRecognizer recognizerPtr s =
     (case MpGestureRecognizerClose recognizerPtr s of
        Inl f \<Rightarrow> Inl f
      | Inr s \<Rightarrow>
          Inr (case g_gr_callback s of
                 Some r \<Rightarrow> (DeleteGlobalRef r s)\<lparr>g_gr_callback := None, g_gr_onResult := None\<rparr>
               | None \<Rightarrow> s))"

subsection \<open>Runs of deliveries, and what a state holds\<close>

text \<open>
  Results delivered one after the other by the engine's thread, each with the JVM's two
  answers, the status, the result and the timestamp.
\<close>

fun hl_deliveries ::
  "(bool \<times> bool \<times> MpStatus \<times> HandLandmarkerResult option \<times> jlong) list \<Rightarrow> shim_state \<Rightarrow>
   fault + shim_state" where
  "hl_deliveries [] s = Inr s"
| "hl_deliveries ((version_ok, attach_ok, status, result, timestamp_ms) # ds) s =
     (case hl_on_result version_ok attach_ok status result timestamp_ms s of
        Inl f \<Rightarrow> Inl f
      | Inr s \<Rightarrow> hl_deliveries ds s)"

text \<open>Results delivered one after the other on the synchronous path.\<close>

fun gr_deliveries ::
  "(GestureRecognizerResult option \<times> jlong) list \<Rightarrow> shim_state \<Rightarrow> fault + shim_state" where
  "gr_deliveries [] s = Inr s"
| "gr_deliveries ((result, timestamp_ms) # ds) s =
     (case gr_deliver_result result timestamp_ms s of
        Inl f \<Rightarrow> Inl f
      | Inr s \<Rightarrow> gr_deliveries ds s)"

text \<open>
  The object a delivery reaches: the runtime is set, a callback reference is held with
  its method id, and the reference is alive.
\<close>

definition hl_callback_object :: "shim_state \<Rightarrow> jobject option" where
  "hl_callback_object s =
     (case (g_jvm s, g_hl_callback s, g_hl_onResult s) of
        (Some vm, Some r, Some m) \<Rightarrow> map_of (global_refs s) r
      | _ \<Rightarrow> None)"

definition gr_callback_object :: "shim_state \<Rightarrow> jobject option" where
  "gr_callback_object s =
     (case (g_gr_callback s, g_gr_onResult s) of
        (Some r, Some m) \<Rightarrow> map_of (global_refs s) r
      | _ \<Rightarrow> None)"

text \<open>
  The live global references are the callback references the shim holds, at most one for
  the landmarker and one for the gesture recognizer, and no reference is held twice.
\<close>

definition refs_inv :: "shim_state \<Rightarrow> bool" where
  "refs_inv s =
     (distinct (map fst (global_refs s)) \<and>
      list_all (\<lambda>p. fst p < next_ref s) (global_refs s) \<and>
      set (map fst (global_refs s)) = set_option (g_hl_callback s) \<union> set_option (g_gr_callback s) \<and>
      (g_hl_callback s = None \<or> g_hl_callback s \<noteq> g_gr_callback s))"

subsection \<open>Results used as concrete inputs\<close>

definition right_hand :: Categories where
  "right_hand = \<lparr>categories = [\<lparr>score = 0.9, category_name = Some ''Right''\<rparr>],
                  categories_count = 1\<rparr>"

definition left_hand :: Categories where
  "left_hand = \<lparr>categories = [\<lparr>score = 0.8, category_name = Some ''Left''\<rparr>],
                 categories_count = 1\<rparr>"

definition thumb_up :: Categories where
  "thumb_up = \<lparr>categories = [\<lparr>score = 0.75, category_name = Some ''Thumb_Up''\<rparr>],
                categories_count = 1\<rparr>"

definition no_category :: Categories where
  "no_category = \<lparr>categories = [], categories_count = 0\<rparr>"

definition two_points :: NormalizedLandmarks where
  "two_points =
     \<lparr>landmarks = [\<lparr>landmark_x = 0.5, landmark_y = 0.25, landmark_z = - 1\<rparr>,
                   \<lparr>landmark_x = 0.125, landmark_y = 0.75, landmark_z = 2\<rparr>],
      landmarks_count = 2\<rparr>"

definition five_hands :: HandLandmarkerResult where
  "five_hands =
     \<lparr>handedness = [right_hand, left_hand, right_hand, left_hand, right_hand],
      handedness_count = 5,
      hand_landmarks = [two_points, two_points, two_points, two_points, two_points],
      hand_landmarks_count = 5\<rparr>"

definition five_gestures :: GestureRecognizerResult where
  "five_gestures =
     \<lparr>handedness = [right_hand, left_hand, right_hand, left_hand, right_hand],
      handedness_count = 5,
      hand_landmarks = [two_points, two_points, two_points, two_points, two_points],
      hand_landmarks_count = 5,
      gestures = [thumb_up, no_category, thumb_up, thumb_up, thumb_up],
      gestures_count = 5\<rparr>"

text \<open>
  The shim before and after the library is loaded, and with one session of each kind:
  the landmarker 42 with the callback object 100, the recognizer 43 with the object 200.
\<close>

definition unloaded :: shim_state where
  "unloaded =
     \<lparr>g_jvm = None, g_hl_callback = None, g_hl_onResult = None,
      g_gr_callback = None, g_gr_onResult = None,
      global_refs = [], next_ref = 1,
      engine_thread_attached = False, engine_thread_local_refs = 0,
      landmarkers = {}, recognizers = {}, owned_images = [], events = []\<rparr>"

definition loaded :: shim_state where
  "loaded = JNI_OnLoad JavaVM unloaded"

definition hl_active :: shim_state where
  "hl_active = snd (nativeCreateLandmarker True (kMpOk, 42, None) ''hand.task'' 100 loaded)"

definition gr_active :: shim_state where
  "gr_active =
     snd (nativeCreateGestureRecognizer True (kMpOk, 43, None) ''gesture.task'' 2 200 loaded)"

definition no_hands :: GestureRecognizerResult where
  "no_hands =
     \<lparr>handedness = [], handedness_count = 0, hand_landmarks = [], hand_landmarks_count = 0,
      gestures = [], gestures_count = 0\<rparr>"

section \<open>Properties of the packer\<close>

subsection \<open>Lengths and frames of the loops\<close>

lemma length_write_landmarks [simp]:
  "length (write_landmarks off lms base i buf) = length buf"
  by (induction off lms base i buf rule: write_landmarks.induct)
     (subst write_landmarks.simps, simp)

lemma length_hl_pack_hand [simp]: "length (hl_pack_hand r h buf) = length buf"
  by (simp add: hl_pack_hand_def Let_def)

lemma length_hl_hand_loop [simp]: "length (hl_hand_loop r n h buf) = length buf"
  by (induction r n h buf rule: hl_hand_loop.induct)
     (subst hl_hand_loop.simps, simp)

lemma length_gr_pack_hand [simp]:
  "length (fst (gr_pack_hand r h bn)) = length (fst bn)"
  "length (snd (gr_pack_hand r h bn)) = length (snd bn)"
  by (auto simp: gr_pack_hand_def Let_def split: prod.splits option.splits)

lemma length_gr_hand_loop [simp]:
  "length (fst (gr_hand_loop r n h bn)) = length (fst bn)"
  "length (snd (gr_hand_loop r n h bn)) = length (snd bn)"
  by (induction r n h bn rule: gr_hand_loop.induct; subst gr_hand_loop.simps; simp)+

text \<open>The loop over the landmarks writes nowhere but in the 63 slots it is given.\<close>

lemma write_landmarks_frame:
  "j < base + off + i * 3 \<or> base + off + 63 \<le> j \<Longrightarrow>
   write_landmarks off lms base i buf ! j = buf ! j"
proof (induction off lms base i buf rule: write_landmarks.induct)
  case (1 off lms base i buf)
  show ?case
  proof (cases "i < unat (landmarks_count lms) \<and> i < 21")
    case True
    with "1.prems" have "j < base + off + (i + 1) * 3 \<or> base + off + 63 \<le> j" by auto
    with True "1.IH" "1.prems" show ?thesis
      by (subst write_landmarks.simps) auto
  next
    case False
    then show ?thesis by (subst write_landmarks.simps) (simp only: if_False)
  qed
qed

lemma hl_pack_hand_frame:
  "0 \<le> h \<Longrightarrow> j < nat (1 + h * 64) \<or> nat (1 + h * 64) + 64 \<le> j \<Longrightarrow>
   hl_pack_hand r h buf ! j = buf ! j"
  by (auto simp: hl_pack_hand_def Let_def write_landmarks_frame)

lemma hl_hand_loop_frame:
  "0 \<le> h \<Longrightarrow> j < nat (1 + h * 64) \<Longrightarrow> hl_hand_loop r n h buf ! j = buf ! j"
proof (induction r n h buf rule: hl_hand_loop.induct)
  case (1 r n h buf)
  show ?case
  proof (cases "h < n")
    case True
    from "1.prems" have "j < nat (1 + (h + 1) * 64)" by simp
    with True "1.IH" "1.prems" show ?thesis
      by (subst hl_hand_loop.simps) (simp add: hl_pack_hand_frame)
  next
    case False
    then show ?thesis by (subst hl_hand_loop.simps) simp
  qed
qed

lemma gr_pack_hand_frame:
  "0 \<le> h \<Longrightarrow> j < nat (1 + h * 65) \<or> nat (1 + h * 65) + 65 \<le> j \<Longrightarrow>
   fst (gr_pack_hand r h bn) ! j = fst bn ! j"
  by (auto simp: gr_pack_hand_def Let_def write_landmarks_frame
      split: prod.splits option.splits)

lemma gr_hand_loop_frame:
  "0 \<le> h \<Longrightarrow> j < nat (1 + h * 65) \<Longrightarrow> fst (gr_hand_loop r n h bn) ! j = fst bn ! j"
proof (induction r n h bn rule: gr_hand_loop.induct)
  case (1 r n h bn)
  show ?case
  proof (cases "h < n")
    case True
    from "1.prems" have "j < nat (1 + (h + 1) * 65)" by simp
    with True "1.IH" "1.prems" show ?thesis
      by (subst gr_hand_loop.simps) (simp add: gr_pack_hand_frame)
  next
    case False
    then show ?thesis by (subst gr_hand_loop.simps) simp
  qed
qed

subsection \<open>The hand count\<close>

lemma sint_fits:
  assumes "count_fits_int c"
  shows "sint c = int (unat c)"
proof -
  from assms have "0 \<le> sint c" by (simp add: count_fits_int_def)
  moreover have "sint c < 2 ^ 32" using sint_lt [of c] by simp
  ultimately have "take_bit 32 (sint c) = sint c" by (simp add: take_bit_int_eq_self)
  then have "uint c = sint c" using uint_sint [of c] by simp
  then show ?thesis by simp
qed

lemma numHands_cap:
  assumes "count_fits_int c"
  shows "(if sint c > 2 then 2 else sint c) = int (min (unat c) 2)"
proof -
  define n where "n = unat c"
  have "sint c = int n" unfolding n_def by (rule sint_fits [OF assms])
  then have "(if sint c > 2 then 2 else sint c) = int (min n 2)" by auto
  then show ?thesis by (simp only: n_def)
qed

lemma hl_pack_eq:
  assumes "count_fits_int (hand_landmarks_count r)"
  shows "hl_pack r =
    Inr (hl_hand_loop r (int (min (unat (hand_landmarks_count r)) 2)) 0
          ((replicate (1 + min (unat (hand_landmarks_count r)) 2 * 64) 0)
             [0 := real (min (unat (hand_landmarks_count r)) 2)]))"
proof -
  define n where "n = min (unat (hand_landmarks_count r)) 2"
  have "(if sint (hand_landmarks_count r) > 2 then 2 else sint (hand_landmarks_count r)) = int n"
    unfolding n_def by (rule numHands_cap [OF assms])
  then have "hl_pack r = Inr (hl_hand_loop r (int n) 0 ((replicate (1 + n * 64) 0)[0 := real n]))"
    by (simp add: hl_pack_def Let_def NewFloatArray_def nat_add_distrib nat_mult_distrib)
  then show ?thesis by (simp only: n_def)
qed

lemma gr_pack_eq:
  assumes "count_fits_int (hand_landmarks_count g)"
  shows "gr_pack g =
    Inr (gr_hand_loop g (int (min (unat (hand_landmarks_count g)) 2)) 0
          ((replicate (1 + min (unat (hand_landmarks_count g)) 2 * 65) 0)
             [0 := real (min (unat (hand_landmarks_count g)) 2)],
           replicate (min (unat (hand_landmarks_count g)) 2) None))"
proof -
  define n where "n = min (unat (hand_landmarks_count g)) 2"
  have "(if sint (hand_landmarks_count g) > 2 then 2 else sint (hand_landmarks_count g)) = int n"
    unfolding n_def by (rule numHands_cap [OF assms])
  then have "gr_pack g = Inr (gr_hand_loop g (int n) 0
      ((replicate (1 + n * 65) 0)[0 := real n], replicate n None))"
    by (simp add: gr_pack_def Let_def NewFloatArray_def NewObjectArray_def
        nat_add_distrib nat_mult_distrib)
  then show ?thesis by (simp only: n_def)
qed

lemma five_hands_engine_result: "hl_engine_result five_hands"
  by (simp add: hl_engine_result_def five_hands_def wf_Categories_def
      wf_NormalizedLandmarks_def count_fits_int_def right_hand_def left_hand_def
      two_points_def)

lemma five_gestures_engine_result: "gr_engine_result five_gestures"
  by (simp add: gr_engine_result_def hl_engine_result_def five_gestures_def
      wf_Categories_def wf_NormalizedLandmarks_def count_fits_int_def right_hand_def
      left_hand_def two_points_def thumb_up_def no_category_def)

subsection \<open>The slots of one hand\<close>

lemma write_landmarks_tail:
  "base + off + 3 * min (unat (landmarks_count lms)) 21 \<le> j \<Longrightarrow>
   write_landmarks off lms base i buf ! j = buf ! j"
proof (induction off lms base i buf rule: write_landmarks.induct)
  case (1 off lms base i buf)
  show ?case
  proof (cases "i < unat (landmarks_count lms) \<and> i < 21")
    case True
    then have "i * 3 + 2 < 3 * min (unat (landmarks_count lms)) 21" by auto
    with True "1.IH" "1.prems" show ?thesis
      by (subst write_landmarks.simps) auto
  next
    case False
    then show ?thesis by (subst write_landmarks.simps) (simp only: if_False)
  qed
qed

lemma write_landmarks_written:
  "i0 \<le> i \<Longrightarrow> i < unat (landmarks_count lms) \<Longrightarrow> i < 21 \<Longrightarrow>
   base + off + 63 \<le> length buf \<Longrightarrow>
   write_landmarks off lms base i0 buf ! (base + off + i * 3) = landmark_x (landmarks lms ! i) \<and>
   write_landmarks off lms base i0 buf ! (base + off + i * 3 + 1) = landmark_y (landmarks lms ! i) \<and>
   write_landmarks off lms base i0 buf ! (base + off + i * 3 + 2) = landmark_z (landmarks lms ! i)"
proof (induction off lms base i0 buf rule: write_landmarks.induct)
  case (1 off lms base i0 buf)
  from "1.prems" have go: "i0 < unat (landmarks_count lms) \<and> i0 < 21" by simp
  let ?buf' = "buf[base + off + i0 * 3 := landmark_x (landmarks lms ! i0),
                  base + off + i0 * 3 + 1 := landmark_y (landmarks lms ! i0),
                  base + off + i0 * 3 + 2 := landmark_z (landmarks lms ! i0)]"
  have unf: "write_landmarks off lms base i0 buf = write_landmarks off lms base (i0 + 1) ?buf'"
    using go by (subst write_landmarks.simps) simp
  show ?case
  proof (cases "i0 = i")
    case True
    from "1.prems" have len: "base + off + i * 3 + 2 < length buf" by simp
    show ?thesis
      unfolding unf using True len by (simp add: write_landmarks_frame)
  next
    case False
    with "1.prems" have "i0 + 1 \<le> i" by simp
    with "1.IH" [OF go] "1.prems" show ?thesis unfolding unf by simp
  qed
qed

lemma hl_hand_loop_segment:
  "0 \<le> h0 \<Longrightarrow> h0 \<le> h \<Longrightarrow> h < n \<Longrightarrow>
   \<exists>buf'. length buf' = length buf \<and>
          (\<forall>j<nat (1 + h * 64) + 64. hl_hand_loop r n h0 buf ! j = hl_pack_hand r h buf' ! j) \<and>
          (\<forall>k\<ge>nat (1 + h * 64). buf' ! k = buf ! k)"
proof (induction r n h0 buf rule: hl_hand_loop.induct)
  case (1 r n h0 buf)
  from "1.prems" have go: "h0 < n" by simp
  have unf: "hl_hand_loop r n h0 buf = hl_hand_loop r n (h0 + 1) (hl_pack_hand r h0 buf)"
    using go by (subst hl_hand_loop.simps) simp
  show ?case
  proof (cases "h0 = h")
    case True
    have "\<forall>j<nat (1 + h * 64) + 64. hl_hand_loop r n h0 buf ! j = hl_pack_hand r h buf ! j"
    proof (intro allI impI)
      fix j assume "j < nat (1 + h * 64) + 64"
      with "1.prems" have "j < nat (1 + (h + 1) * 64)" by (simp add: nat_add_distrib)
      with "1.prems" True show "hl_hand_loop r n h0 buf ! j = hl_pack_hand r h buf ! j"
        unfolding unf by (simp add: hl_hand_loop_frame)
    qed
    then show ?thesis by blast
  next
    case False
    with "1.prems" have le: "0 \<le> h0 + 1" "h0 + 1 \<le> h" by simp_all
    from "1.IH" [OF go le "1.prems"(3)]
    obtain buf' where b: "length buf' = length (hl_pack_hand r h0 buf)"
      "\<forall>j<nat (1 + h * 64) + 64.
         hl_hand_loop r n (h0 + 1) (hl_pack_hand r h0 buf) ! j = hl_pack_hand r h buf' ! j"
      "\<forall>k\<ge>nat (1 + h * 64). buf' ! k = hl_pack_hand r h0 buf ! k"
      by blast
    have fr: "\<forall>k\<ge>nat (1 + h * 64). buf' ! k = buf ! k"
    proof (intro allI impI)
      fix k assume k: "nat (1 + h * 64) \<le> k"
      from le "1.prems" have "nat (1 + h0 * 64) + 64 \<le> nat (1 + h * 64)"
        by (simp add: nat_add_distrib nat_le_iff)
      with k have "nat (1 + h0 * 64) + 64 \<le> k" by simp
      with b(3) k "1.prems" show "buf' ! k = buf ! k"
        by (simp add: hl_pack_hand_frame)
    qed
    show ?thesis
      unfolding unf using b(1,2) fr by (intro exI [of _ buf']) simp
  qed
qed

lemma gr_pack_hand_names_frame:
  "k \<noteq> nat h \<Longrightarrow> snd (gr_pack_hand r h bn) ! k = snd bn ! k"
  by (auto simp: gr_pack_hand_def Let_def split: prod.splits option.splits)

lemma gr_hand_loop_names_frame:
  "0 \<le> h \<Longrightarrow> k < nat h \<Longrightarrow> snd (gr_hand_loop r n h bn) ! k = snd bn ! k"
proof (induction r n h bn rule: gr_hand_loop.induct)
  case (1 r n h bn)
  show ?case
  proof (cases "h < n")
    case True
    from "1.prems" have "k < nat (h + 1)" "k \<noteq> nat h" by simp_all
    with True "1.IH" "1.prems" show ?thesis
      by (subst gr_hand_loop.simps) (simp add: gr_pack_hand_names_frame)
  next
    case False
    then show ?thesis by (subst gr_hand_loop.simps) simp
  qed
qed

lemma gr_hand_loop_segment:
  "0 \<le> h0 \<Longrightarrow> h0 \<le> h \<Longrightarrow> h < n \<Longrightarrow>
   \<exists>bn'. length (fst bn') = length (fst bn) \<and> length (snd bn') = length (snd bn) \<and>
          (\<forall>j<nat (1 + h * 65) + 65.
             fst (gr_hand_loop r n h0 bn) ! j = fst (gr_pack_hand r h bn') ! j) \<and>
          snd (gr_hand_loop r n h0 bn) ! nat h = snd (gr_pack_hand r h bn') ! nat h \<and>
          (\<forall>k\<ge>nat (1 + h * 65). fst bn' ! k = fst bn ! k) \<and>
          snd bn' ! nat h = snd bn ! nat h"
proof (induction r n h0 bn rule: gr_hand_loop.induct)
  case (1 r n h0 bn)
  from "1.prems" have go: "h0 < n" by simp
  have unf: "gr_hand_loop r n h0 bn = gr_hand_loop r n (h0 + 1) (gr_pack_hand r h0 bn)"
    using go by (subst gr_hand_loop.simps) simp
  show ?case
  proof (cases "h0 = h")
    case True
    have "\<forall>j<nat (1 + h * 65) + 65.
            fst (gr_hand_loop r n h0 bn) ! j = fst (gr_pack_hand r h bn) ! j"
    proof (intro allI impI)
      fix j assume "j < nat (1 + h * 65) + 65"
      with "1.prems" have "j < nat (1 + (h + 1) * 65)" by (simp add: nat_add_distrib)
      with "1.prems" True
      show "fst (gr_hand_loop r n h0 bn) ! j = fst (gr_pack_hand r h bn) ! j"
        unfolding unf by (simp add: gr_hand_loop_frame)
    qed
    moreover from "1.prems" True
    have "snd (gr_hand_loop r n h0 bn) ! nat h = snd (gr_pack_hand r h bn) ! nat h"
      unfolding unf by (simp add: gr_hand_loop_names_frame)
    ultimately show ?thesis by blast
  next
    case False
    with "1.prems" have le: "0 \<le> h0 + 1" "h0 + 1 \<le> h" by simp_all
    from "1.IH" [OF go le "1.prems"(3)]
    obtain bn' where b: "length (fst bn') = length (fst (gr_pack_hand r h0 bn))"
      "length (snd bn') = length (snd (gr_pack_hand r h0 bn))"
      "\<forall>j<nat (1 + h * 65) + 65.
         fst (gr_hand_loop r n (h0 + 1) (gr_pack_hand r h0 bn)) ! j =
         fst (gr_pack_hand r h bn') ! j"
      "snd (gr_hand_loop r n (h0 + 1) (gr_pack_hand r h0 bn)) ! nat h =
         snd (gr_pack_hand r h bn') ! nat h"
      "\<forall>k\<ge>nat (1 + h * 65). fst bn' ! k = fst (gr_pack_hand r h0 bn) ! k"
      "snd bn' ! nat h = snd (gr_pack_hand r h0 bn) ! nat h"
      by blast
    have fr: "\<forall>k\<ge>nat (1 + h * 65). fst bn' ! k = fst bn ! k"
    proof (intro allI impI)
      fix k assume k: "nat (1 + h * 65) \<le> k"
      from le "1.prems" have "nat (1 + h0 * 65) + 65 \<le> nat (1 + h * 65)"
        by (simp add: nat_add_distrib nat_le_iff)
      with k have "nat (1 + h0 * 65) + 65 \<le> k" by simp
      with b(5) k "1.prems" show "fst bn' ! k = fst bn ! k"
        by (simp add: gr_pack_hand_frame)
    qed
    from le "1.prems" have "nat h \<noteq> nat h0" by simp
    with b(6) have nm: "snd bn' ! nat h = snd bn ! nat h"
      by (simp add: gr_pack_hand_names_frame)
    show ?thesis
      unfolding unf using b(1-4) fr nm by (intro exI [of _ bn']) simp
  qed
qed

text \<open>What the body of the loop leaves in the slots of its hand.\<close>

lemma hl_pack_hand_contents:
  assumes len: "1 + h * 64 + 64 \<le> length buf"
    and zero: "\<forall>k\<ge>1 + h * 64. k < length buf \<longrightarrow> buf ! k = 0"
  shows "hl_pack_hand r (int h) buf ! (1 + h * 64) = handednessValue r (int h)"
    and "i < 21 \<Longrightarrow> i < unat (landmarks_count (hand_landmarks r ! h)) \<Longrightarrow>
         hl_pack_hand r (int h) buf ! (1 + h * 64 + 1 + i * 3) =
           landmark_x (landmarks (hand_landmarks r ! h) ! i) \<and>
         hl_pack_hand r (int h) buf ! (1 + h * 64 + 1 + i * 3 + 1) =
           landmark_y (landmarks (hand_landmarks r ! h) ! i) \<and>
         hl_pack_hand r (int h) buf ! (1 + h * 64 + 1 + i * 3 + 2) =
           landmark_z (landmarks (hand_landmarks r ! h) ! i)"
    and "i < 21 \<Longrightarrow> unat (landmarks_count (hand_landmarks r ! h)) \<le> i \<Longrightarrow> k < 3 \<Longrightarrow>
         hl_pack_hand r (int h) buf ! (1 + h * 64 + 1 + i * 3 + k) = 0"
proof -
  have base: "nat (1 + int h * 64) = 1 + h * 64"
    by (simp add: nat_add_distrib nat_mult_distrib)
  show "hl_pack_hand r (int h) buf ! (1 + h * 64) = handednessValue r (int h)"
    using len by (simp add: hl_pack_hand_def Let_def base write_landmarks_frame)
  show "hl_pack_hand r (int h) buf ! (1 + h * 64 + 1 + i * 3) =
           landmark_x (landmarks (hand_landmarks r ! h) ! i) \<and>
         hl_pack_hand r (int h) buf ! (1 + h * 64 + 1 + i * 3 + 1) =
           landmark_y (landmarks (hand_landmarks r ! h) ! i) \<and>
         hl_pack_hand r (int h) buf ! (1 + h * 64 + 1 + i * 3 + 2) =
           landmark_z (landmarks (hand_landmarks r ! h) ! i)"
    if "i < 21" "i < unat (landmarks_count (hand_landmarks r ! h))"
    using write_landmarks_written [of 0 i "hand_landmarks r ! h" "1 + h * 64" 1
        "buf[1 + h * 64 := handednessValue r (int h)]"] that len
    by (simp add: hl_pack_hand_def Let_def base)
  show "hl_pack_hand r (int h) buf ! (1 + h * 64 + 1 + i * 3 + k) = 0"
    if "i < 21" "unat (landmarks_count (hand_landmarks r ! h)) \<le> i" "k < 3"
  proof -
    from that have "1 + h * 64 + 1 + 3 * min (unat (landmarks_count (hand_landmarks r ! h))) 21
        \<le> 1 + h * 64 + 1 + i * 3 + k" by (simp add: min_def)
    then have "hl_pack_hand r (int h) buf ! (1 + h * 64 + 1 + i * 3 + k) =
        buf ! (1 + h * 64 + 1 + i * 3 + k)"
      by (simp add: hl_pack_hand_def Let_def base write_landmarks_tail)
    also from that len zero have "\<dots> = 0" by simp
    finally show ?thesis .
  qed
qed

lemma gr_pack_hand_contents:
  assumes len: "1 + h * 65 + 65 \<le> length (fst bn)"
    and zero: "\<forall>k\<ge>1 + h * 65. k < length (fst bn) \<longrightarrow> fst bn ! k = 0"
    and names: "h < length (snd bn)" "snd bn ! h = None"
  shows "fst (gr_pack_hand r (int h) bn) ! (1 + h * 65) = handednessValue r (int h)"
    and "fst (gr_pack_hand r (int h) bn) ! (1 + h * 65 + 1) = fst (gesture_of r (int h))"
    and "snd (gr_pack_hand r (int h) bn) ! h = snd (gesture_of r (int h))"
    and "i < 21 \<Longrightarrow> i < unat (landmarks_count (hand_landmarks r ! h)) \<Longrightarrow>
         fst (gr_pack_hand r (int h) bn) ! (1 + h * 65 + 2 + i * 3) =
           landmark_x (landmarks (hand_landmarks r ! h) ! i) \<and>
         fst (gr_pack_hand r (int h) bn) ! (1 + h * 65 + 2 + i * 3 + 1) =
           landmark_y (landmarks (hand_landmarks r ! h) ! i) \<and>
         fst (gr_pack_hand r (int h) bn) ! (1 + h * 65 + 2 + i * 3 + 2) =
           landmark_z (landmarks (hand_landmarks r ! h) ! i)"
    and "i < 21 \<Longrightarrow> unat (landmarks_count (hand_landmarks r ! h)) \<le> i \<Longrightarrow> k < 3 \<Longrightarrow>
         fst (gr_pack_hand r (int h) bn) ! (1 + h * 65 + 2 + i * 3 + k) = 0"
proof -
  have base: "nat (1 + int h * 65) = 1 + h * 65"
    by (simp add: nat_add_distrib nat_mult_distrib)
  obtain buf jNames where bn: "bn = (buf, jNames)" by (cases bn)
  obtain gs gn where g: "gesture_of r (int h) = (gs, gn)" by (cases "gesture_of r (int h)")
  let ?buf = "buf[1 + h * 65 := handednessValue r (int h), 1 + h * 65 + 1 := gs]"
  have f: "fst (gr_pack_hand r (int h) bn) =
      write_landmarks 2 (hand_landmarks r ! h) (1 + h * 65) 0 ?buf"
    by (simp add: gr_pack_hand_def Let_def base bn g)
  have s: "snd (gr_pack_hand r (int h) bn) =
      (case gn of None \<Rightarrow> jNames | Some name \<Rightarrow> jNames[h := Some name])"
    by (cases gn) (simp_all add: gr_pack_hand_def Let_def base bn g)
  from len have l: "1 + h * 65 + 65 \<le> length buf" by (simp add: bn)
  show "fst (gr_pack_hand r (int h) bn) ! (1 + h * 65) = handednessValue r (int h)"
    unfolding f using l by (simp add: write_landmarks_frame)
  show "fst (gr_pack_hand r (int h) bn) ! (1 + h * 65 + 1) = fst (gesture_of r (int h))"
    unfolding f using l by (simp add: write_landmarks_frame g)
  show "snd (gr_pack_hand r (int h) bn) ! h = snd (gesture_of r (int h))"
    unfolding s using names by (simp add: g bn split: option.splits)
  show "fst (gr_pack_hand r (int h) bn) ! (1 + h * 65 + 2 + i * 3) =
           landmark_x (landmarks (hand_landmarks r ! h) ! i) \<and>
         fst (gr_pack_hand r (int h) bn) ! (1 + h * 65 + 2 + i * 3 + 1) =
           landmark_y (landmarks (hand_landmarks r ! h) ! i) \<and>
         fst (gr_pack_hand r (int h) bn) ! (1 + h * 65 + 2 + i * 3 + 2) =
           landmark_z (landmarks (hand_landmarks r ! h) ! i)"
    if "i < 21" "i < unat (landmarks_count (hand_landmarks r ! h))"
    unfolding f
    using write_landmarks_written [of 0 i "hand_landmarks r ! h" "1 + h * 65" 2 ?buf] that l
    by simp
  show "fst (gr_pack_hand r (int h) bn) ! (1 + h * 65 + 2 + i * 3 + k) = 0"
    if "i < 21" "unat (landmarks_count (hand_landmarks r ! h)) \<le> i" "k < 3"
  proof -
    from that have "1 + h * 65 + 2 + 3 * min (unat (landmarks_count (hand_landmarks r ! h))) 21
        \<le> 1 + h * 65 + 2 + i * 3 + k" by (simp add: min_def)
    then have "fst (gr_pack_hand r (int h) bn) ! (1 + h * 65 + 2 + i * 3 + k) =
        ?buf ! (1 + h * 65 + 2 + i * 3 + k)"
      unfolding f by (simp add: write_landmarks_tail)
    also have "\<dots> = buf ! (1 + h * 65 + 2 + i * 3 + k)" by simp
    also from that l zero have "\<dots> = 0" by (simp add: bn)
    finally show ?thesis .
  qed
qed

text \<open>The buffers of the two packers, hand by hand.\<close>

lemma hl_pack_hand_of_result:
  assumes fit: "count_fits_int (hand_landmarks_count r)"
    and h: "h < min (unat (hand_landmarks_count r)) 2"
  shows "\<exists>buf buf'. hl_pack r = Inr buf \<and>
           length buf = 1 + min (unat (hand_landmarks_count r)) 2 * 64 \<and>
           length buf' = length buf \<and>
           (\<forall>k\<ge>1 + h * 64. k < length buf' \<longrightarrow> buf' ! k = 0) \<and>
           (\<forall>j<1 + h * 64 + 64. buf ! j = hl_pack_hand r (int h) buf' ! j)"
proof -
  define n where "n = min (unat (hand_landmarks_count r)) 2"
  define buf0 where "buf0 = (replicate (1 + n * 64) 0)[0 := real n]"
  have base: "nat (1 + int h * 64) = 1 + h * 64"
    by (simp add: nat_add_distrib nat_mult_distrib)
  have pk: "hl_pack r = Inr (hl_hand_loop r (int n) 0 buf0)"
    unfolding n_def buf0_def by (rule hl_pack_eq [OF fit])
  from h have "int h < int n" by (simp add: n_def)
  from hl_hand_loop_segment [of 0 "int h" "int n" buf0 r, OF _ _ this]
  obtain buf' where b: "length buf' = length buf0"
    "\<forall>j<1 + h * 64 + 64. hl_hand_loop r (int n) 0 buf0 ! j = hl_pack_hand r (int h) buf' ! j"
    "\<forall>k\<ge>1 + h * 64. buf' ! k = buf0 ! k"
    unfolding base by auto
  have z: "\<forall>k\<ge>1 + h * 64. k < length buf' \<longrightarrow> buf' ! k = 0"
    using b(1,3) by (simp add: buf0_def)
  show ?thesis
    unfolding n_def [symmetric]
    apply (rule exI [of _ "hl_hand_loop r (int n) 0 buf0"])
    apply (rule exI [of _ buf'])
    using pk b(1,2) z by (simp add: buf0_def)
qed

lemma gr_pack_hand_of_result:
  assumes fit: "count_fits_int (hand_landmarks_count r)"
    and h: "h < min (unat (hand_landmarks_count r)) 2"
  shows "\<exists>buf jNames bn'. gr_pack r = Inr (buf, jNames) \<and>
           length buf = 1 + min (unat (hand_landmarks_count r)) 2 * 65 \<and>
           length jNames = min (unat (hand_landmarks_count r)) 2 \<and>
           length (fst bn') = length buf \<and> length (snd bn') = length jNames \<and>
           (\<forall>k\<ge>1 + h * 65. k < length (fst bn') \<longrightarrow> fst bn' ! k = 0) \<and>
           snd bn' ! h = None \<and>
           (\<forall>j<1 + h * 65 + 65. buf ! j = fst (gr_pack_hand r (int h) bn') ! j) \<and>
           jNames ! h = snd (gr_pack_hand r (int h) bn') ! h"
proof -
  define n where "n = min (unat (hand_landmarks_count r)) 2"
  define bn0 :: "real list \<times> string option list"
    where "bn0 = ((replicate (1 + n * 65) 0)[0 := real n], replicate n None)"
  have base: "nat (1 + int h * 65) = 1 + h * 65"
    by (simp add: nat_add_distrib nat_mult_distrib)
  have pk: "gr_pack r = Inr (gr_hand_loop r (int n) 0 bn0)"
    unfolding n_def bn0_def by (rule gr_pack_eq [OF fit])
  from h have hn: "int h < int n" "h < n" by (simp_all add: n_def)
  from gr_hand_loop_segment [of 0 "int h" "int n" bn0 r, OF _ _ hn(1)]
  obtain bn' where b: "length (fst bn') = length (fst bn0)" "length (snd bn') = length (snd bn0)"
    "\<forall>j<1 + h * 65 + 65. fst (gr_hand_loop r (int n) 0 bn0) ! j =
        fst (gr_pack_hand r (int h) bn') ! j"
    "snd (gr_hand_loop r (int n) 0 bn0) ! h = snd (gr_pack_hand r (int h) bn') ! h"
    "\<forall>k\<ge>1 + h * 65. fst bn' ! k = fst bn0 ! k"
    "snd bn' ! h = snd bn0 ! h"
    unfolding base by auto
  have z: "\<forall>k\<ge>1 + h * 65. k < length (fst bn') \<longrightarrow> fst bn' ! k = 0"
    using b(1,5) by (simp add: bn0_def)
  have nn: "snd bn' ! h = None" using b(6) hn(2) by (simp add: bn0_def)
  have pk': "gr_pack r = Inr (fst (gr_hand_loop r (int n) 0 bn0), snd (gr_hand_loop r (int n) 0 bn0))"
    by (simp add: pk)
  show ?thesis
    unfolding n_def [symmetric]
    apply (rule exI [of _ "fst (gr_hand_loop r (int n) 0 bn0)"])
    apply (rule exI [of _ "snd (gr_hand_loop r (int n) 0 bn0)"])
    apply (rule exI [of _ bn'])
    using pk' b(1-4) z nn by (simp add: bn0_def)
qed

lemma categories_count_pos:
  "wf_Categories cs \<Longrightarrow> (0 < categories_count cs) = (categories cs \<noteq> [])"
  by (simp add: wf_Categories_def word_less_nat_alt flip: length_greater_0_conv)

lemma less_sint_fits:
  assumes "count_fits_int c"
  shows "(int h < sint c) = (h < unat c)"
proof -
  have "(int h < sint c) = (int h < int (unat c))"
    by (simp only: sint_fits [OF assms])
  also have "\<dots> = (h < unat c)" by (rule of_nat_less_iff)
  finally show ?thesis .
qed

lemma stride_bound: "h < n \<Longrightarrow> 1 + h * s + s \<le> 1 + n * (s::nat)"
proof -
  assume "h < n"
  then have "Suc h * s \<le> n * s" by (intro mult_le_mono1) simp
  then show ?thesis by simp
qed

lemma handednessValue_spec:
  assumes "hl_engine_result r"
  shows "handednessValue r (int h) =
    (if \<exists>rest. spec_first_handedness_label r h = Some (CHR ''R'' # rest) then 1 else 0)"
proof (cases "h < length (handedness r)")
  case True
  with assms have lt: "int h < sint (handedness_count r)"
    by (simp add: hl_engine_result_def less_sint_fits)
  from True assms have "wf_Categories (handedness r ! h)"
    by (simp add: hl_engine_result_def list_all_length)
  note pos = categories_count_pos [OF this]
  show ?thesis
  proof (cases "categories (handedness r ! h)")
    case Nil
    with True pos show ?thesis
      by (simp add: handednessValue_def spec_first_handedness_label_def)
  next
    case (Cons c cs)
    with True pos lt show ?thesis
      by (auto simp: handednessValue_def spec_first_handedness_label_def first_char_is_R_def
          split: option.splits list.splits)
  qed
next
  case False
  with assms have "\<not> int h < sint (handedness_count r)"
    by (simp add: hl_engine_result_def less_sint_fits)
  with False show ?thesis
    by (simp add: handednessValue_def spec_first_handedness_label_def)
qed

lemma gesture_of_spec:
  assumes "gr_engine_result g"
  shows "gesture_of g (int h) =
    (if h < length (gestures g) \<and> categories (gestures g ! h) \<noteq> []
     then (score (hd (categories (gestures g ! h))),
           category_name (hd (categories (gestures g ! h))))
     else (0, None))"
proof (cases "h < length (gestures g)")
  case True
  with assms have lt: "int h < sint (gestures_count g)"
    by (simp add: gr_engine_result_def less_sint_fits)
  from True assms have "wf_Categories (gestures g ! h)"
    by (simp add: gr_engine_result_def list_all_length)
  note pos = categories_count_pos [OF this]
  with True lt show ?thesis
    by (simp add: gesture_of_def hd_conv_nth)
next
  case False
  with assms have "\<not> int h < sint (gestures_count g)"
    by (simp add: gr_engine_result_def less_sint_fits)
  with False show ?thesis by (simp add: gesture_of_def)
qed

subsection \<open>Points beyond the 21st\<close>

lemma unat_min_word: "unat (min a b) = min (unat a) (unat (b::'a::len word))"
  by (simp add: min_def word_le_nat_alt)

lemma write_landmarks_keep_21:
  "write_landmarks off (keep_21 lms) base i buf = write_landmarks off lms base i buf"
proof (induction off lms base i buf rule: write_landmarks.induct)
  case (1 off lms base i buf)
  have c: "(i < unat (landmarks_count (keep_21 lms)) \<and> i < 21) =
           (i < unat (landmarks_count lms) \<and> i < 21)"
    by (auto simp: keep_21_def unat_min_word)
  show ?case
  proof (cases "i < unat (landmarks_count lms) \<and> i < 21")
    case True
    then have v: "landmarks (keep_21 lms) ! i = landmarks lms ! i"
      by (simp add: keep_21_def)
    have "write_landmarks off (keep_21 lms) base i buf =
        write_landmarks off (keep_21 lms) base (i + 1)
          (buf[base + off + i * 3 := landmark_x (landmarks lms ! i),
               base + off + i * 3 + 1 := landmark_y (landmarks lms ! i),
               base + off + i * 3 + 2 := landmark_z (landmarks lms ! i)])"
      using True c by (subst write_landmarks.simps) (simp add: v)
    also have "\<dots> = write_landmarks off lms base (i + 1)
          (buf[base + off + i * 3 := landmark_x (landmarks lms ! i),
               base + off + i * 3 + 1 := landmark_y (landmarks lms ! i),
               base + off + i * 3 + 2 := landmark_z (landmarks lms ! i)])"
      by (rule "1.IH" [OF True])
    also have "\<dots> = write_landmarks off lms base i buf"
      using True by (subst (2) write_landmarks.simps) simp
    finally show ?thesis .
  next
    case False
    then have "write_landmarks off lms base i buf = buf"
      by (subst write_landmarks.simps) (simp only: if_False)
    moreover from False c have "write_landmarks off (keep_21 lms) base i buf = buf"
      by (subst write_landmarks.simps) (simp only: if_False)
    ultimately show ?thesis by simp
  qed
qed

lemma handednessValue_keep_21 [simp]:
  "handednessValue (r\<lparr>hand_landmarks := hl\<rparr>) h = handednessValue r h"
  by (simp add: handednessValue_def)

lemma gesture_of_keep_21 [simp]:
  "gesture_of (g\<lparr>hand_landmarks := hl\<rparr>) h = gesture_of g h"
  by (simp add: gesture_of_def)

lemma hl_pack_hand_keep_21:
  "nat h < length (hand_landmarks r) \<Longrightarrow>
   hl_pack_hand (r\<lparr>hand_landmarks := map keep_21 (hand_landmarks r)\<rparr>) h buf =
   hl_pack_hand r h buf"
  by (simp add: hl_pack_hand_def Let_def write_landmarks_keep_21)

lemma gr_pack_hand_keep_21:
  "nat h < length (hand_landmarks g) \<Longrightarrow>
   gr_pack_hand (g\<lparr>hand_landmarks := map keep_21 (hand_landmarks g)\<rparr>) h bn =
   gr_pack_hand g h bn"
  by (simp add: gr_pack_hand_def Let_def write_landmarks_keep_21 split: prod.splits)

lemma hl_hand_loop_keep_21:
  "0 \<le> h \<Longrightarrow> nat n \<le> length (hand_landmarks r) \<Longrightarrow>
   hl_hand_loop (r\<lparr>hand_landmarks := map keep_21 (hand_landmarks r)\<rparr>) n h buf =
   hl_hand_loop r n h buf"
proof (induction r n h buf rule: hl_hand_loop.induct)
  case (1 r n h buf)
  show ?case
  proof (cases "h < n")
    case True
    with "1.prems" have "nat h < length (hand_landmarks r)" by simp
    with True "1.IH" "1.prems" show ?thesis
      by (subst hl_hand_loop.simps, subst (2) hl_hand_loop.simps)
         (simp add: hl_pack_hand_keep_21)
  next
    case False
    then show ?thesis
      by (subst hl_hand_loop.simps, subst (2) hl_hand_loop.simps) simp
  qed
qed

lemma gr_hand_loop_keep_21:
  "0 \<le> h \<Longrightarrow> nat n \<le> length (hand_landmarks g) \<Longrightarrow>
   gr_hand_loop (g\<lparr>hand_landmarks := map keep_21 (hand_landmarks g)\<rparr>) n h bn =
   gr_hand_loop g n h bn"
proof (induction g n h bn rule: gr_hand_loop.induct)
  case (1 g n h bn)
  show ?case
  proof (cases "h < n")
    case True
    with "1.prems" have "nat h < length (hand_landmarks g)" by simp
    with True "1.IH" "1.prems" show ?thesis
      by (subst gr_hand_loop.simps, subst (2) gr_hand_loop.simps)
         (simp add: gr_pack_hand_keep_21)
  next
    case False
    then show ?thesis
      by (subst gr_hand_loop.simps, subst (2) gr_hand_loop.simps) simp
  qed
qed

lemma hl_pack_keep_21:
  assumes "hl_engine_result r"
  shows "hl_pack (r\<lparr>hand_landmarks := map keep_21 (hand_landmarks r)\<rparr>) = hl_pack r"
proof -
  from assms have fit: "count_fits_int (hand_landmarks_count r)"
    and len: "length (hand_landmarks r) = unat (hand_landmarks_count r)"
    by (simp_all add: hl_engine_result_def)
  have fit': "count_fits_int
      (hand_landmarks_count (r\<lparr>hand_landmarks := map keep_21 (hand_landmarks r)\<rparr>))"
    using fit by simp
  have "nat (int (min (unat (hand_landmarks_count r)) 2)) \<le> length (hand_landmarks r)"
    by (simp add: len)
  then show ?thesis
    unfolding hl_pack_eq [OF fit] hl_pack_eq [OF fit']
    by (simp add: hl_hand_loop_keep_21 del: of_nat_min)
qed

lemma gr_pack_keep_21:
  assumes "gr_engine_result g"
  shows "gr_pack (g\<lparr>hand_landmarks := map keep_21 (hand_landmarks g)\<rparr>) = gr_pack g"
proof -
  from assms have fit: "count_fits_int (hand_landmarks_count g)"
    and len: "length (hand_landmarks g) = unat (hand_landmarks_count g)"
    by (simp_all add: gr_engine_result_def hl_engine_result_def)
  have fit': "count_fits_int
      (hand_landmarks_count (g\<lparr>hand_landmarks := map keep_21 (hand_landmarks g)\<rparr>))"
    using fit by simp
  have "nat (int (min (unat (hand_landmarks_count g)) 2)) \<le> length (hand_landmarks g)"
    by (simp add: len)
  then show ?thesis
    unfolding gr_pack_eq [OF fit] gr_pack_eq [OF fit']
    by (simp add: gr_hand_loop_keep_21 del: of_nat_min)
qed

section \<open>Properties of the sessions\<close>

subsection \<open>The example states, deliveries and references\<close>

lemma hl_active_eq:
  "hl_active =
     \<lparr>g_jvm = Some JavaVM, g_hl_callback = Some 1,
      g_hl_onResult = Some (MethodID ''onResult'' ''([FJ)V''),
      g_gr_callback = None, g_gr_onResult = None,
      global_refs = [(1, 100)], next_ref = 2,
      engine_thread_attached = False, engine_thread_local_refs = 0,
      landmarkers = {42}, recognizers = {}, owned_images = [], events = []\<rparr>"
  by (simp add: hl_active_def loaded_def unloaded_def JNI_OnLoad_def nativeCreateLandmarker_def
      NewGlobalRef_def kMpOk_def Let_def)

lemma gr_active_eq:
  "gr_active =
     \<lparr>g_jvm = Some JavaVM, g_hl_callback = None, g_hl_onResult = None,
      g_gr_callback = Some 1,
      g_gr_onResult = Some (MethodID ''onResult'' ''([F[Ljava/lang/String;J)V''),
      global_refs = [(1, 200)], next_ref = 2,
      engine_thread_attached = False, engine_thread_local_refs = 0,
      landmarkers = {}, recognizers = {43}, owned_images = [], events = []\<rparr>"
  by (simp add: gr_active_def loaded_def unloaded_def JNI_OnLoad_def
      nativeCreateGestureRecognizer_def NewGlobalRef_def kMpOk_def Let_def)

lemma refs_inv_loaded: "refs_inv unloaded" "refs_inv loaded"
  by (simp_all add: refs_inv_def loaded_def unloaded_def JNI_OnLoad_def)

lemma refs_inv_hl_active: "refs_inv hl_active"
  by (simp add: refs_inv_def hl_active_eq)

lemma refs_inv_gr_active: "refs_inv gr_active"
  by (simp add: refs_inv_def gr_active_eq)

lemma hl_result_array_null:
  "status \<noteq> kMpOk \<or> result = None \<or> (\<exists>r. result = Some r \<and> hand_landmarks_count r = 0) \<Longrightarrow>
   hl_result_array status result = Inr None"
  by (auto simp: hl_result_array_def split: option.splits)

lemma hl_result_array_total:
  "(case result of Some r \<Rightarrow> hl_engine_result r | None \<Rightarrow> True) \<Longrightarrow>
   \<exists>jResult. hl_result_array status result = Inr jResult"
  by (auto simp: hl_result_array_def hl_engine_result_def hl_pack_eq split: option.splits)

lemma hl_on_result_keeps:
  assumes "hl_on_result version_ok attach_ok status result ts s = Inr s'"
  shows "g_jvm s' = g_jvm s \<and> g_hl_callback s' = g_hl_callback s \<and>
         g_hl_onResult s' = g_hl_onResult s \<and> global_refs s' = global_refs s \<and>
         (\<exists>new. events s' = events s @ new \<and>
            (\<forall>obj buf t. HlOnResult obj buf t \<in> set new \<longrightarrow>
               hl_callback_object s = Some obj))"
  using assms
  by (auto simp: hl_on_result_def attach_jvm_def GetEnv_def hl_CallVoidMethod_def
      hl_callback_object_def emit_def Let_def
      split: if_splits option.splits sum.splits prod.splits)

lemma hl_deliveries_reach:
  "hl_deliveries ds s = Inr s' \<Longrightarrow>
   \<exists>new. events s' = events s @ new \<and>
     (\<forall>obj buf t. HlOnResult obj buf t \<in> set new \<longrightarrow> hl_callback_object s = Some obj)"
proof (induction ds arbitrary: s)
  case Nil
  then show ?case by simp
next
  case (Cons d ds)
  obtain version_ok attach_ok status result ts
    where d: "d = (version_ok, attach_ok, status, result, ts)" by (cases d)
  from Cons.prems obtain s1
    where s1: "hl_on_result version_ok attach_ok status result ts s = Inr s1"
      and rest: "hl_deliveries ds s1 = Inr s'"
    by (auto simp: d split: sum.splits)
  from hl_on_result_keeps [OF s1] have k: "hl_callback_object s1 = hl_callback_object s"
    by (simp add: hl_callback_object_def cong: option.case_cong)
  from hl_on_result_keeps [OF s1] obtain new1
    where n1: "events s1 = events s @ new1"
        "\<forall>obj buf t. HlOnResult obj buf t \<in> set new1 \<longrightarrow> hl_callback_object s = Some obj"
    by blast
  from Cons.IH [OF rest] obtain new2
    where n2: "events s' = events s1 @ new2"
      "\<forall>obj buf t. HlOnResult obj buf t \<in> set new2 \<longrightarrow> hl_callback_object s1 = Some obj"
    by blast
  have "events s' = events s @ (new1 @ new2)"
    using n1(1) n2(1) by simp
  moreover have "\<forall>obj buf t. HlOnResult obj buf t \<in> set (new1 @ new2) \<longrightarrow>
      hl_callback_object s = Some obj"
    using n1(2) n2(2) unfolding k by (metis Un_iff set_append)
  ultimately show ?case by blast
qed

lemma gr_deliver_result_keeps:
  assumes "gr_deliver_result result ts s = Inr s'"
  shows "g_gr_callback s' = g_gr_callback s \<and>
         g_gr_onResult s' = g_gr_onResult s \<and> global_refs s' = global_refs s \<and>
         (\<exists>new. events s' = events s @ new \<and>
            (\<forall>obj buf names t. GrOnResult obj buf names t \<in> set new \<longrightarrow>
               gr_callback_object s = Some obj))"
  using assms
  by (auto simp: gr_deliver_result_def gr_CallVoidMethod_def gr_callback_object_def emit_def
      split: option.splits sum.splits prod.splits)

lemma gr_deliveries_reach:
  "gr_deliveries ds s = Inr s' \<Longrightarrow>
   \<exists>new. events s' = events s @ new \<and>
     (\<forall>obj buf names t. GrOnResult obj buf names t \<in> set new \<longrightarrow>
        gr_callback_object s = Some obj)"
proof (induction ds arbitrary: s)
  case Nil
  then show ?case by simp
next
  case (Cons d ds)
  obtain result ts where d: "d = (result, ts)" by (cases d)
  from Cons.prems obtain s1
    where s1: "gr_deliver_result result ts s = Inr s1"
      and rest: "gr_deliveries ds s1 = Inr s'"
    by (auto simp: d split: sum.splits)
  from gr_deliver_result_keeps [OF s1] have k: "gr_callback_object s1 = gr_callback_object s"
    by (simp add: gr_callback_object_def cong: option.case_cong)
  from gr_deliver_result_keeps [OF s1] obtain new1
    where n1: "events s1 = events s @ new1"
        "\<forall>obj buf names t. GrOnResult obj buf names t \<in> set new1 \<longrightarrow>
           gr_callback_object s = Some obj"
    by blast
  from Cons.IH [OF rest] obtain new2
    where n2: "events s' = events s1 @ new2"
      "\<forall>obj buf names t. GrOnResult obj buf names t \<in> set new2 \<longrightarrow>
         gr_callback_object s1 = Some obj"
    by blast
  have "events s' = events s @ (new1 @ new2)"
    using n1(1) n2(1) by simp
  moreover have "\<forall>obj buf names t. GrOnResult obj buf names t \<in> set (new1 @ new2) \<longrightarrow>
      gr_callback_object s = Some obj"
    using n1(2) n2(2) unfolding k by (metis Un_iff set_append)
  ultimately show ?case by blast
qed

text \<open>Releasing the old reference and taking a new one, as both creations do.\<close>

lemma replace_ref:
  assumes inv: "distinct (map fst refs)" "list_all (\<lambda>p. fst p < n) refs"
    and held: "set (map fst refs) = set_option old \<union> set_option other"
    and apart: "old = None \<or> old \<noteq> other"
  shows "distinct (map fst (filter (\<lambda>p. Some (fst p) \<noteq> old) refs @ [(n, cb)]))"
    and "list_all (\<lambda>p. fst p < Suc n) (filter (\<lambda>p. Some (fst p) \<noteq> old) refs @ [(n, cb)])"
    and "set (map fst (filter (\<lambda>p. Some (fst p) \<noteq> old) refs @ [(n, cb)])) =
           {n} \<union> set_option other"
    and "Some n \<noteq> other"
    and "map_of (filter (\<lambda>p. Some (fst p) \<noteq> old) refs @ [(n, cb)]) n = Some cb"
    and "\<forall>r0. old = Some r0 \<longrightarrow>
           r0 \<notin> fst ` set (filter (\<lambda>p. Some (fst p) \<noteq> old) refs @ [(n, cb)])"
proof -
  have below: "\<forall>r\<in>set (map fst refs). r < n"
    using inv(2) by (auto simp: list_all_iff)
  then have fresh: "n \<notin> set (map fst refs)" by auto
  show "distinct (map fst (filter (\<lambda>p. Some (fst p) \<noteq> old) refs @ [(n, cb)]))"
    using inv(1) fresh by (auto simp: distinct_map_filter)
  show "list_all (\<lambda>p. fst p < Suc n) (filter (\<lambda>p. Some (fst p) \<noteq> old) refs @ [(n, cb)])"
    using below by (auto simp: list_all_iff)
  show "set (map fst (filter (\<lambda>p. Some (fst p) \<noteq> old) refs @ [(n, cb)])) =
           {n} \<union> set_option other"
    using held apart by (cases old; cases other) (auto simp: image_iff)
  show "Some n \<noteq> other"
    using held fresh by (cases other) auto
  have "n \<notin> fst ` set (filter (\<lambda>p. Some (fst p) \<noteq> old) refs)"
    using fresh by auto
  then show "map_of (filter (\<lambda>p. Some (fst p) \<noteq> old) refs @ [(n, cb)]) n = Some cb"
    by (simp add: map_of_eq_None_iff [THEN iffD2] map_add_def split: option.splits)
  show "\<forall>r0. old = Some r0 \<longrightarrow>
           r0 \<notin> fst ` set (filter (\<lambda>p. Some (fst p) \<noteq> old) refs @ [(n, cb)])"
    using held fresh by auto
qed

lemma close_ref:
  assumes inv: "distinct (map fst refs)" "list_all (\<lambda>p. fst p < n) refs"
    and held: "set (map fst refs) = set_option old \<union> set_option other"
    and apart: "old = None \<or> old \<noteq> other"
  shows "distinct (map fst (filter (\<lambda>p. Some (fst p) \<noteq> old) refs))"
    and "list_all (\<lambda>p. fst p < n) (filter (\<lambda>p. Some (fst p) \<noteq> old) refs)"
    and "set (map fst (filter (\<lambda>p. Some (fst p) \<noteq> old) refs)) = set_option other"
    and "\<forall>r0. old = Some r0 \<longrightarrow> r0 \<notin> fst ` set (filter (\<lambda>p. Some (fst p) \<noteq> old) refs)"
proof -
  show "distinct (map fst (filter (\<lambda>p. Some (fst p) \<noteq> old) refs))"
    using inv(1) by (simp add: distinct_map_filter)
  show "list_all (\<lambda>p. fst p < n) (filter (\<lambda>p. Some (fst p) \<noteq> old) refs)"
    using inv(2) by (auto simp: list_all_iff)
  have "set (map fst (filter (\<lambda>p. Some (fst p) \<noteq> old) refs)) =
      set (map fst refs) - set_option old"
    by (cases old) force+
  then show "set (map fst (filter (\<lambda>p. Some (fst p) \<noteq> old) refs)) = set_option other"
    unfolding held using apart by (cases old; cases other) auto
  show "\<forall>r0. old = Some r0 \<longrightarrow> r0 \<notin> fst ` set (filter (\<lambda>p. Some (fst p) \<noteq> old) refs)"
    by auto
qed

lemma DeleteGlobalRef_filter:
  "global_refs (case old of Some r \<Rightarrow> DeleteGlobalRef r s | None \<Rightarrow> s) =
   filter (\<lambda>p. Some (fst p) \<noteq> old) (global_refs s)"
  by (cases old) (simp_all add: DeleteGlobalRef_def)

lemma nativeCreateLandmarker_refs:
  assumes "nativeCreateLandmarker method_found answer modelPath callback s = (h, s')"
  shows "global_refs s' =
           filter (\<lambda>p. Some (fst p) \<noteq> g_hl_callback s) (global_refs s) @ [(next_ref s, callback)]"
    and "next_ref s' = Suc (next_ref s)"
    and "g_hl_callback s' = Some (next_ref s)"
    and "g_gr_callback s' = g_gr_callback s" and "g_jvm s' = g_jvm s"
    and "method_found \<Longrightarrow> g_hl_onResult s' \<noteq> None"
  using assms
  by (cases "g_hl_callback s";
      auto simp: nativeCreateLandmarker_def NewGlobalRef_def DeleteGlobalRef_def
        throw_exception_def emit_def Let_def split: if_splits prod.splits)+

lemma nativeCreateGestureRecognizer_refs:
  assumes "nativeCreateGestureRecognizer method_found answer modelPath numHands callback s =
      (h, s')"
  shows "global_refs s' =
           filter (\<lambda>p. Some (fst p) \<noteq> g_gr_callback s) (global_refs s) @ [(next_ref s, callback)]"
    and "next_ref s' = Suc (next_ref s)"
    and "g_gr_callback s' = Some (next_ref s)"
    and "g_hl_callback s' = g_hl_callback s"
    and "method_found \<Longrightarrow> g_gr_onResult s' \<noteq> None"
  using assms
  by (cases "g_gr_callback s";
      auto simp: nativeCreateGestureRecognizer_def NewGlobalRef_def DeleteGlobalRef_def
        throw_exception_def emit_def Let_def split: if_splits prod.splits)+

lemma nativeCloseLandmarker_live:
  assumes "landmarkerPtr \<in> landmarkers s"
  shows "nativeCloseLandmarker landmarkerPtr s =
     Inr (s\<lparr>g_hl_callback := None, g_hl_onResult :=
                (case g_hl_callback s of Some r \<Rightarrow> None | None \<Rightarrow> g_hl_onResult s),
             global_refs := filter (\<lambda>p. Some (fst p) \<noteq> g_hl_callback s) (global_refs s),
             landmarkers := landmarkers s - {landmarkerPtr}\<rparr>)"
  using assms
  by (cases "g_hl_callback s")
     (simp_all add: nativeCloseLandmarker_def MpHandLandmarkerClose_def DeleteGlobalRef_def)

lemma nativeCloseGestureRecognizer_live:
  assumes "recognizerPtr \<in> recognizers s"
  shows "nativeCloseGestureRecognizer recognizerPtr s =
     Inr (s\<lparr>g_gr_callback := None, g_gr_onResult :=
                (case g_gr_callback s of Some r \<Rightarrow> None | None \<Rightarrow> g_gr_onResult s),
             global_refs := filter (\<lambda>p. Some (fst p) \<noteq> g_gr_callback s) (global_refs s),
             recognizers := recognizers s - {recognizerPtr}\<rparr>)"
  using assms
  by (cases "g_gr_callback s")
     (simp_all add: nativeCloseGestureRecognizer_def MpGestureRecognizerClose_def
        DeleteGlobalRef_def)

lemma nativeDetectAsync_owns_no_image:
  assumes "img \<notin> set (owned_images s)" and "landmarkerPtr \<in> landmarkers s"
    and "sint (width * height * 3) \<le> int (length pixelData)"
  shows "\<exists>s'. nativeDetectAsync (status, img) submitted landmarkerPtr pixelData width height
           ts s = Inr s' \<and> owned_images s' = owned_images s"
  using assms
  by (auto simp: nativeDetectAsync_def MpImageCreateFromUint8Data_def
      MpHandLandmarkerDetectAsync_def MpImageFree_def Let_def)

subsection \<open>From the packer to the callback\<close>

text \<open>
  The buffer of the packer, for whatever count; the guards of lines 78 and 137, which let
  a result with a hand in; and the deliveries, which hand the callback the array they
  are given.
\<close>

lemma pack_length_and_count:
  "(hl_engine_result r \<longrightarrow>
      (\<exists>buf. hl_pack r = Inr buf \<and>
         length buf = 1 + min (unat (hand_landmarks_count r)) 2 * 64 \<and>
         buf ! 0 = real (min (unat (hand_landmarks_count r)) 2))) \<and>
   (gr_engine_result g \<longrightarrow>
      (\<exists>buf jNames. gr_pack g = Inr (buf, jNames) \<and>
         length buf = 1 + min (unat (hand_landmarks_count g)) 2 * 65 \<and>
         length jNames = min (unat (hand_landmarks_count g)) 2 \<and>
         buf ! 0 = real (min (unat (hand_landmarks_count g)) 2)))"
proof (intro conjI impI)
  assume "hl_engine_result r"
  then have fr: "count_fits_int (hand_landmarks_count r)"
    by (simp add: hl_engine_result_def)
  show "\<exists>buf. hl_pack r = Inr buf \<and>
           length buf = 1 + min (unat (hand_landmarks_count r)) 2 * 64 \<and>
           buf ! 0 = real (min (unat (hand_landmarks_count r)) 2)"
    by (simp add: hl_pack_eq [OF fr] hl_hand_loop_frame del: of_nat_min)
next
  assume "gr_engine_result g"
  then have fg: "count_fits_int (hand_landmarks_count g)"
    by (simp add: gr_engine_result_def hl_engine_result_def)
  define n where "n = min (unat (hand_landmarks_count g)) 2"
  define bn where "bn = gr_hand_loop g (int n) 0
      ((replicate (1 + n * 65) 0)[0 := real n], replicate n None)"
  have pk: "gr_pack g = Inr (fst bn, snd bn)"
    unfolding bn_def n_def by (simp add: gr_pack_eq [OF fg])
  have "length (fst bn) = 1 + n * 65" by (simp add: bn_def)
  moreover have "length (snd bn) = n" by (simp add: bn_def)
  moreover have "fst bn ! 0 = real n"
    unfolding bn_def by (subst gr_hand_loop_frame) simp_all
  ultimately show "\<exists>buf jNames. gr_pack g = Inr (buf, jNames) \<and>
           length buf = 1 + min (unat (hand_landmarks_count g)) 2 * 65 \<and>
           length jNames = min (unat (hand_landmarks_count g)) 2 \<and>
           buf ! 0 = real (min (unat (hand_landmarks_count g)) 2)"
    using pk unfolding n_def by blast
qed

lemma hl_result_array_packed:
  "hl_pack r = Inr buf \<Longrightarrow> 0 < hand_landmarks_count r \<Longrightarrow>
   hl_result_array kMpOk (Some r) = Inr (Some buf)"
  by (simp add: hl_result_array_def)

lemma gr_result_arrays_packed:
  "gr_pack g = Inr (buf, jNames) \<Longrightarrow> 0 < hand_landmarks_count g \<Longrightarrow>
   gr_result_arrays (Some g) = Inr (Some buf, Some jNames)"
  by (simp add: gr_result_arrays_def)

lemma hl_on_result_delivers:
  assumes "hl_callback_object s = Some obj"
    and "hl_result_array status result = Inr jResult"
  shows "\<exists>s'. hl_on_result version_ok attach_ok status result ts s = Inr s' \<and>
     events s' = events s @
       (if engine_thread_attached s
        then (if version_ok then [HlOnResult obj jResult ts] else [])
        else if attach_ok
        then [AttachCurrentThread, HlOnResult obj jResult ts, DetachCurrentThread]
        else [])"
  using assms
  by (auto simp: hl_on_result_def attach_jvm_def GetEnv_def hl_CallVoidMethod_def
      hl_callback_object_def emit_def Let_def
      split: if_splits option.splits sum.splits prod.splits)

lemma gr_deliver_result_delivers:
  assumes "gr_callback_object s = Some obj"
    and "gr_result_arrays result = Inr (jResult, jNames)"
  shows "gr_deliver_result result ts s = Inr (emit (GrOnResult obj jResult jNames ts) s)"
  using assms
  by (auto simp: gr_deliver_result_def gr_CallVoidMethod_def gr_callback_object_def
      split: option.splits)

lemma nativeRecognizeGestureForVideo_delivers:
  assumes "gr_callback_object s = Some obj" and "recognizerPtr \<in> recognizers s"
    and "sint (width * height * 3) \<le> int (length pixelData)"
    and "gr_result_arrays (Some g) = Inr (jResult, jNames)"
  shows "\<exists>s'. nativeRecognizeGestureForVideo (kMpOk, img, m1) (kMpOk, g, m2) recognizerPtr
            pixelData width height ts s = Inr (True, s') \<and>
     events s' = events s @ [GrOnResult obj jResult jNames ts]"
  using assms(2,3)
  by (simp add: nativeRecognizeGestureForVideo_def MpImageCreateFromUint8Data_def
      MpGestureRecognizerRecognizeForVideo_def Let_def
      gr_deliver_result_delivers [OF assms(1,4)] emit_def)


section \<open>The claims of the specification\<close>

subsection \<open>C1: the length of the buffer and its first element\<close>

text \<open>
  C1. A result of the engine with at least one hand, delivered with the status
  \<^verbatim>\<open>kMpOk\<close>, passes the guard of line 78 (line 137 on the synchronous path) and is
  packed: the array handed to the callback is the buffer of the packer, built with
  \<open>numHands = min hand_count 2\<close>; it has length \<open>1 + numHands * stride\<close>, with stride
  64 in the landmarker and 65 in the gesture recognizer, and its first element is
  \<open>numHands\<close>. Hands beyond the second are dropped without an error: the delivery
  returns, and the callback registered is invoked with that buffer (and, in the gesture
  recognizer, with \<open>numHands\<close> names).
\<close>

theorem packed_buffer_length_and_count:
  "(hl_engine_result r \<and> 0 < hand_landmarks_count r \<longrightarrow>
      (\<exists>buf. hl_result_array kMpOk (Some r) = Inr (Some buf) \<and> hl_pack r = Inr buf \<and>
         length buf = 1 + min (unat (hand_landmarks_count r)) 2 * 64 \<and>
         buf ! 0 = real (min (unat (hand_landmarks_count r)) 2))) \<and>
   (hl_engine_result r \<and> 0 < hand_landmarks_count r \<and> hl_callback_object s = Some obj \<longrightarrow>
      (\<exists>buf s'. hl_on_result version_ok attach_ok kMpOk (Some r) ts s = Inr s' \<and>
         events s' = events s @
           (if engine_thread_attached s
            then (if version_ok then [HlOnResult obj (Some buf) ts] else [])
            else if attach_ok
            then [AttachCurrentThread, HlOnResult obj (Some buf) ts, DetachCurrentThread]
            else []) \<and>
         length buf = 1 + min (unat (hand_landmarks_count r)) 2 * 64 \<and>
         buf ! 0 = real (min (unat (hand_landmarks_count r)) 2))) \<and>
   (gr_engine_result g \<and> 0 < hand_landmarks_count g \<longrightarrow>
      (\<exists>buf jNames. gr_result_arrays (Some g) = Inr (Some buf, Some jNames) \<and>
         gr_pack g = Inr (buf, jNames) \<and>
         length buf = 1 + min (unat (hand_landmarks_count g)) 2 * 65 \<and>
         length jNames = min (unat (hand_landmarks_count g)) 2 \<and>
         buf ! 0 = real (min (unat (hand_landmarks_count g)) 2))) \<and>
   (gr_engine_result g \<and> 0 < hand_landmarks_count g \<and> gr_callback_object t = Some cb \<and>
    recognizerPtr \<in> recognizers t \<and>
    sint (width * height * 3) \<le> int (length pixelData) \<longrightarrow>
      (\<exists>buf jNames t'.
         gr_deliver_result (Some g) ts t = Inr (emit (GrOnResult cb (Some buf) (Some jNames) ts) t) \<and>
         nativeRecognizeGestureForVideo (kMpOk, img, m1) (kMpOk, g, m2) recognizerPtr
           pixelData width height ts t = Inr (True, t') \<and>
         events t' = events t @ [GrOnResult cb (Some buf) (Some jNames) ts] \<and>
         length buf = 1 + min (unat (hand_landmarks_count g)) 2 * 65 \<and>
         length jNames = min (unat (hand_landmarks_count g)) 2 \<and>
         buf ! 0 = real (min (unat (hand_landmarks_count g)) 2)))"
  (is "(?h1 \<longrightarrow> ?c1) \<and> (?h2 \<longrightarrow> ?c2) \<and> (?h3 \<longrightarrow> ?c3) \<and> (?h4 \<longrightarrow> ?c4)")
proof (intro conjI)
  show "?h1 \<longrightarrow> ?c1"
  proof
    assume a: ?h1
    with pack_length_and_count [of r g] obtain buf where b: "hl_pack r = Inr buf"
      "length buf = 1 + min (unat (hand_landmarks_count r)) 2 * 64"
      "buf ! 0 = real (min (unat (hand_landmarks_count r)) 2)"
      by blast
    from a have "hl_result_array kMpOk (Some r) = Inr (Some buf)"
      by (intro hl_result_array_packed [OF b(1)]) simp
    with b show ?c1 by blast
  qed
  show "?h2 \<longrightarrow> ?c2"
  proof
    assume a: ?h2
    with pack_length_and_count [of r g] obtain buf where b: "hl_pack r = Inr buf"
      "length buf = 1 + min (unat (hand_landmarks_count r)) 2 * 64"
      "buf ! 0 = real (min (unat (hand_landmarks_count r)) 2)"
      by blast
    from a have ra: "hl_result_array kMpOk (Some r) = Inr (Some buf)"
      by (intro hl_result_array_packed [OF b(1)]) simp
    from a have co: "hl_callback_object s = Some obj" by simp
    from hl_on_result_delivers [OF co ra, of version_ok attach_ok ts] b(2,3)
    show ?c2 by blast
  qed
  show "?h3 \<longrightarrow> ?c3"
  proof
    assume a: ?h3
    with pack_length_and_count [of r g] obtain buf jNames
      where b: "gr_pack g = Inr (buf, jNames)"
        "length buf = 1 + min (unat (hand_landmarks_count g)) 2 * 65"
        "length jNames = min (unat (hand_landmarks_count g)) 2"
        "buf ! 0 = real (min (unat (hand_landmarks_count g)) 2)"
      by blast
    from a have "gr_result_arrays (Some g) = Inr (Some buf, Some jNames)"
      by (intro gr_result_arrays_packed [OF b(1)]) simp
    with b show ?c3 by blast
  qed
  show "?h4 \<longrightarrow> ?c4"
  proof
    assume a: ?h4
    with pack_length_and_count [of r g] obtain buf jNames
      where b: "gr_pack g = Inr (buf, jNames)"
        "length buf = 1 + min (unat (hand_landmarks_count g)) 2 * 65"
        "length jNames = min (unat (hand_landmarks_count g)) 2"
        "buf ! 0 = real (min (unat (hand_landmarks_count g)) 2)"
      by blast
    from a have ra: "gr_result_arrays (Some g) = Inr (Some buf, Some jNames)"
      by (intro gr_result_arrays_packed [OF b(1)]) simp
    from a have co: "gr_callback_object t = Some cb" and live: "recognizerPtr \<in> recognizers t"
      and sz: "sint (width * height * 3) \<le> int (length pixelData)"
      by simp_all
    from nativeRecognizeGestureForVideo_delivers [OF co live sz ra, of img m1 m2 ts]
      gr_deliver_result_delivers [OF co ra, of ts] b(2,3,4)
    show ?c4 by blast
  qed
qed

text \<open>
  A result of five hands, delivered to the landmarker's session on a detached thread and
  recognized in a frame of one pixel by the recognizer's session: the buffers have 129
  and 131 elements, the first is 2.
\<close>

theorem packed_buffer_length_and_count_witness:
  "hl_engine_result five_hands \<and> 0 < hand_landmarks_count five_hands \<and>
   hl_callback_object hl_active = Some 100 \<and>
   (\<exists>buf. hl_result_array kMpOk (Some five_hands) = Inr (Some buf) \<and>
      length buf = 129 \<and> buf ! 0 = 2) \<and>
   (\<exists>buf s'. hl_on_result True True kMpOk (Some five_hands) 5 hl_active = Inr s' \<and>
      events s' = [AttachCurrentThread, HlOnResult 100 (Some buf) 5, DetachCurrentThread] \<and>
      length buf = 129 \<and> buf ! 0 = 2) \<and>
   gr_engine_result five_gestures \<and> 0 < hand_landmarks_count five_gestures \<and>
   gr_callback_object gr_active = Some 200 \<and> (43::nat) \<in> recognizers gr_active \<and>
   sint (1 * 1 * 3 :: jint) \<le> int (length [0, 0, 0 :: jbyte]) \<and>
   (\<exists>buf jNames. gr_result_arrays (Some five_gestures) = Inr (Some buf, Some jNames) \<and>
      length buf = 131 \<and> length jNames = 2 \<and> buf ! 0 = 2) \<and>
   (\<exists>buf jNames t'.
      nativeRecognizeGestureForVideo (kMpOk, 7, None) (kMpOk, five_gestures, None) 43
        [0, 0, 0] 1 1 5 gr_active = Inr (True, t') \<and>
      events t' = [GrOnResult 200 (Some buf) (Some jNames) 5] \<and>
      length buf = 131 \<and> length jNames = 2 \<and> buf ! 0 = 2)"
proof -
  have c: "hand_landmarks_count five_hands = 5" "hand_landmarks_count five_gestures = 5"
    "hl_callback_object hl_active = Some 100" "gr_callback_object gr_active = Some 200"
    "recognizers gr_active = {43}" "events hl_active = []" "events gr_active = []"
    "\<not> engine_thread_attached hl_active"
    by (simp_all add: five_hands_def five_gestures_def hl_active_eq gr_active_eq
        hl_callback_object_def gr_callback_object_def)
  show ?thesis
    using packed_buffer_length_and_count [where r = five_hands and g = five_gestures
        and s = hl_active and obj = 100 and version_ok = True and attach_ok = True
        and ts = 5 and t = gr_active and cb = 200 and recognizerPtr = 43 and width = 1
        and height = 1 and pixelData = "[0, 0, 0]" and img = 7 and ?m1.0 = None
        and ?m2.0 = None]
      five_hands_engine_result five_gestures_engine_result
    by (simp add: c) blast
qed

subsection \<open>C2: the slots of the landmarks\<close>

text \<open>
  C2. For a packed hand \<open>h\<close>, at base \<open>1 + h * stride\<close>, and a landmark index
  \<open>i < 21\<close>, the coordinates x, y, z stand in the slots \<open>base + o + 3 * i\<close>,
  \<open>+ 1\<close> and \<open>+ 2\<close>, with \<open>o = 1\<close> in the landmarker and \<open>o = 2\<close> in the gesture
  recognizer: the buffer gives back the coordinates of the result. The slots of a hand
  with fewer than 21 points stay zero beyond its last point, and points beyond the 21st
  change nothing.
\<close>

theorem landmark_slots:
  "(hl_engine_result r \<and> h < min (unat (hand_landmarks_count r)) 2 \<and> i < 21 \<longrightarrow>
      (\<exists>buf. hl_pack r = Inr buf \<and> 1 + h * 64 + 1 + i * 3 + 2 < length buf \<and>
         (if i < length (landmarks (hand_landmarks r ! h))
          then buf ! (1 + h * 64 + 1 + i * 3) =
                 landmark_x (landmarks (hand_landmarks r ! h) ! i) \<and>
               buf ! (1 + h * 64 + 1 + i * 3 + 1) =
                 landmark_y (landmarks (hand_landmarks r ! h) ! i) \<and>
               buf ! (1 + h * 64 + 1 + i * 3 + 2) =
                 landmark_z (landmarks (hand_landmarks r ! h) ! i)
          else buf ! (1 + h * 64 + 1 + i * 3) = 0 \<and>
               buf ! (1 + h * 64 + 1 + i * 3 + 1) = 0 \<and>
               buf ! (1 + h * 64 + 1 + i * 3 + 2) = 0))) \<and>
   (gr_engine_result g \<and> h < min (unat (hand_landmarks_count g)) 2 \<and> i < 21 \<longrightarrow>
      (\<exists>buf jNames. gr_pack g = Inr (buf, jNames) \<and>
         1 + h * 65 + 2 + i * 3 + 2 < length buf \<and>
         (if i < length (landmarks (hand_landmarks g ! h))
          then buf ! (1 + h * 65 + 2 + i * 3) =
                 landmark_x (landmarks (hand_landmarks g ! h) ! i) \<and>
               buf ! (1 + h * 65 + 2 + i * 3 + 1) =
                 landmark_y (landmarks (hand_landmarks g ! h) ! i) \<and>
               buf ! (1 + h * 65 + 2 + i * 3 + 2) =
                 landmark_z (landmarks (hand_landmarks g ! h) ! i)
          else buf ! (1 + h * 65 + 2 + i * 3) = 0 \<and>
               buf ! (1 + h * 65 + 2 + i * 3 + 1) = 0 \<and>
               buf ! (1 + h * 65 + 2 + i * 3 + 2) = 0))) \<and>
   (hl_engine_result r \<longrightarrow>
      hl_pack (r\<lparr>hand_landmarks := map keep_21 (hand_landmarks r)\<rparr>) = hl_pack r) \<and>
   (gr_engine_result g \<longrightarrow>
      gr_pack (g\<lparr>hand_landmarks := map keep_21 (hand_landmarks g)\<rparr>) = gr_pack g)"
proof (intro conjI impI)
  assume a: "hl_engine_result r \<and> h < min (unat (hand_landmarks_count r)) 2 \<and> i < 21"
  then have fit: "count_fits_int (hand_landmarks_count r)"
    and hlen: "h < length (hand_landmarks r)"
    and wf: "list_all wf_NormalizedLandmarks (hand_landmarks r)"
    by (simp_all add: hl_engine_result_def)
  from wf hlen have cnt: "unat (landmarks_count (hand_landmarks r ! h)) =
      length (landmarks (hand_landmarks r ! h))"
    by (simp add: list_all_length wf_NormalizedLandmarks_def)
  from hl_pack_hand_of_result [OF fit] a
  obtain buf buf' where b: "hl_pack r = Inr buf"
    "length buf = 1 + min (unat (hand_landmarks_count r)) 2 * 64"
    "length buf' = length buf"
    "\<forall>k\<ge>1 + h * 64. k < length buf' \<longrightarrow> buf' ! k = 0"
    "\<forall>j<1 + h * 64 + 64. buf ! j = hl_pack_hand r (int h) buf' ! j"
    by blast
  from a have len: "1 + h * 64 + 64 \<le> length buf"
    unfolding b(2) by (intro stride_bound) simp
  with b(3) have len': "1 + h * 64 + 64 \<le> length buf'" by simp
  note c = hl_pack_hand_contents(2,3) [OF len' b(4), of i r, unfolded cnt]
  from a have i: "i < 21" by simp
  have idx: "1 + h * 64 + 1 + i * 3 < 1 + h * 64 + 64"
    "1 + h * 64 + 1 + i * 3 + 1 < 1 + h * 64 + 64"
    "1 + h * 64 + 1 + i * 3 + 2 < 1 + h * 64 + 64"
    using i by simp_all
  have z: "hl_pack_hand r (int h) buf' ! (1 + h * 64 + 1 + i * 3) = 0 \<and>
           hl_pack_hand r (int h) buf' ! (1 + h * 64 + 1 + i * 3 + 1) = 0 \<and>
           hl_pack_hand r (int h) buf' ! (1 + h * 64 + 1 + i * 3 + 2) = 0"
    if "\<not> i < length (landmarks (hand_landmarks r ! h))"
    using c(2) [OF i, of 0] c(2) [OF i, of 1] c(2) [OF i, of 2] that by simp
  show "\<exists>buf. hl_pack r = Inr buf \<and> 1 + h * 64 + 1 + i * 3 + 2 < length buf \<and>
         (if i < length (landmarks (hand_landmarks r ! h))
          then buf ! (1 + h * 64 + 1 + i * 3) =
                 landmark_x (landmarks (hand_landmarks r ! h) ! i) \<and>
               buf ! (1 + h * 64 + 1 + i * 3 + 1) =
                 landmark_y (landmarks (hand_landmarks r ! h) ! i) \<and>
               buf ! (1 + h * 64 + 1 + i * 3 + 2) =
                 landmark_z (landmarks (hand_landmarks r ! h) ! i)
          else buf ! (1 + h * 64 + 1 + i * 3) = 0 \<and>
               buf ! (1 + h * 64 + 1 + i * 3 + 1) = 0 \<and>
               buf ! (1 + h * 64 + 1 + i * 3 + 2) = 0)"
    apply (rule exI [of _ buf])
    using b(1) len idx c(1) [OF i] z b(5) [rule_format, OF idx(1)]
      b(5) [rule_format, OF idx(2)] b(5) [rule_format, OF idx(3)]
    by (simp del: One_nat_def)
next
  assume a: "gr_engine_result g \<and> h < min (unat (hand_landmarks_count g)) 2 \<and> i < 21"
  then have fit: "count_fits_int (hand_landmarks_count g)"
    and hlen: "h < length (hand_landmarks g)"
    and wf: "list_all wf_NormalizedLandmarks (hand_landmarks g)"
    by (simp_all add: gr_engine_result_def hl_engine_result_def)
  from wf hlen have cnt: "unat (landmarks_count (hand_landmarks g ! h)) =
      length (landmarks (hand_landmarks g ! h))"
    by (simp add: list_all_length wf_NormalizedLandmarks_def)
  from gr_pack_hand_of_result [OF fit] a
  obtain buf jNames bn' where b: "gr_pack g = Inr (buf, jNames)"
    "length buf = 1 + min (unat (hand_landmarks_count g)) 2 * 65"
    "length jNames = min (unat (hand_landmarks_count g)) 2"
    "length (fst bn') = length buf" "length (snd bn') = length jNames"
    "\<forall>k\<ge>1 + h * 65. k < length (fst bn') \<longrightarrow> fst bn' ! k = 0"
    "snd bn' ! h = None"
    "\<forall>j<1 + h * 65 + 65. buf ! j = fst (gr_pack_hand g (int h) bn') ! j"
    "jNames ! h = snd (gr_pack_hand g (int h) bn') ! h"
    by blast
  from a have len: "1 + h * 65 + 65 \<le> length buf"
    unfolding b(2) by (intro stride_bound) simp
  with b(4) have len': "1 + h * 65 + 65 \<le> length (fst bn')" by simp
  from a b(3,5) have hl: "h < length (snd bn')" by simp
  note c = gr_pack_hand_contents(4,5) [OF len' b(6) hl b(7), of i g, unfolded cnt]
  from a have i: "i < 21" by simp
  have idx: "1 + h * 65 + 2 + i * 3 < 1 + h * 65 + 65"
    "1 + h * 65 + 2 + i * 3 + 1 < 1 + h * 65 + 65"
    "1 + h * 65 + 2 + i * 3 + 2 < 1 + h * 65 + 65"
    using i by simp_all
  have z: "fst (gr_pack_hand g (int h) bn') ! (1 + h * 65 + 2 + i * 3) = 0 \<and>
           fst (gr_pack_hand g (int h) bn') ! (1 + h * 65 + 2 + i * 3 + 1) = 0 \<and>
           fst (gr_pack_hand g (int h) bn') ! (1 + h * 65 + 2 + i * 3 + 2) = 0"
    if "\<not> i < length (landmarks (hand_landmarks g ! h))"
    using c(2) [OF i, of 0] c(2) [OF i, of 1] c(2) [OF i, of 2] that by simp
  show "\<exists>buf jNames. gr_pack g = Inr (buf, jNames) \<and>
         1 + h * 65 + 2 + i * 3 + 2 < length buf \<and>
         (if i < length (landmarks (hand_landmarks g ! h))
          then buf ! (1 + h * 65 + 2 + i * 3) =
                 landmark_x (landmarks (hand_landmarks g ! h) ! i) \<and>
               buf ! (1 + h * 65 + 2 + i * 3 + 1) =
                 landmark_y (landmarks (hand_landmarks g ! h) ! i) \<and>
               buf ! (1 + h * 65 + 2 + i * 3 + 2) =
                 landmark_z (landmarks (hand_landmarks g ! h) ! i)
          else buf ! (1 + h * 65 + 2 + i * 3) = 0 \<and>
               buf ! (1 + h * 65 + 2 + i * 3 + 1) = 0 \<and>
               buf ! (1 + h * 65 + 2 + i * 3 + 2) = 0)"
    apply (rule exI [of _ buf])
    apply (rule exI [of _ jNames])
    using b(1) len idx c(1) [OF i] z b(8) [rule_format, OF idx(1)]
      b(8) [rule_format, OF idx(2)] b(8) [rule_format, OF idx(3)]
    by (simp del: One_nat_def)
next
  assume "hl_engine_result r"
  then show "hl_pack (r\<lparr>hand_landmarks := map keep_21 (hand_landmarks r)\<rparr>) = hl_pack r"
    by (rule hl_pack_keep_21)
next
  assume "gr_engine_result g"
  then show "gr_pack (g\<lparr>hand_landmarks := map keep_21 (hand_landmarks g)\<rparr>) = gr_pack g"
    by (rule gr_pack_keep_21)
qed

text \<open>
  The second hand of a result whose hands have two points each: the second point is read
  back from the slots 69 to 71 (71 to 73 in the gesture recognizer), and the slots of the third
  point, which the hand does not have, are zero.
\<close>

theorem landmark_slots_witness:
  "hl_engine_result five_hands \<and> (1::nat) < min (unat (hand_landmarks_count five_hands)) 2 \<and>
   (\<exists>buf. hl_pack five_hands = Inr buf \<and>
      buf ! 69 = 0.125 \<and> buf ! 70 = 0.75 \<and> buf ! 71 = 2) \<and>
   (\<exists>buf. hl_pack five_hands = Inr buf \<and> buf ! 72 = 0 \<and> buf ! 73 = 0 \<and> buf ! 74 = 0) \<and>
   gr_engine_result five_gestures \<and>
   (1::nat) < min (unat (hand_landmarks_count five_gestures)) 2 \<and>
   (\<exists>buf jNames. gr_pack five_gestures = Inr (buf, jNames) \<and>
      buf ! 71 = 0.125 \<and> buf ! 72 = 0.75 \<and> buf ! 73 = 2) \<and>
   hl_pack (five_hands\<lparr>hand_landmarks := map keep_21 (hand_landmarks five_hands)\<rparr>) =
     hl_pack five_hands \<and>
   gr_pack (five_gestures\<lparr>hand_landmarks := map keep_21 (hand_landmarks five_gestures)\<rparr>) =
     gr_pack five_gestures"
proof -
  have c: "hand_landmarks_count five_hands = 5" "hand_landmarks_count five_gestures = 5"
    "hand_landmarks five_hands ! 1 = two_points"
    "hand_landmarks five_hands ! Suc 0 = two_points"
    "hand_landmarks five_gestures ! 1 = two_points"
    "hand_landmarks five_gestures ! Suc 0 = two_points"
    by (simp_all add: five_hands_def five_gestures_def)
  have p: "landmarks two_points ! 1 = \<lparr>landmark_x = 0.125, landmark_y = 0.75, landmark_z = 2\<rparr>"
    "landmarks two_points ! Suc 0 =
       \<lparr>landmark_x = 0.125, landmark_y = 0.75, landmark_z = 2\<rparr>"
    "length (landmarks two_points) = 2"
    by (simp_all add: two_points_def)
  show ?thesis
    using landmark_slots [of five_hands 1 1 five_gestures]
      landmark_slots [of five_hands 1 2 five_gestures]
      five_hands_engine_result five_gestures_engine_result
    by (auto simp: c p)
qed

subsection \<open>C3: the handedness slot\<close>

text \<open>
  C3. The handedness slot of a packed hand, the first of its slots, is 1 when the first
  character of the label of the hand's first handedness category is \<open>R\<close>, and 0 for
  every other input: no handedness entry, no category, a null label, an empty label, or
  another first character.
\<close>

theorem handedness_slot:
  "(hl_engine_result r \<and> h < min (unat (hand_landmarks_count r)) 2 \<longrightarrow>
      (\<exists>buf. hl_pack r = Inr buf \<and> 1 + h * 64 < length buf \<and>
         buf ! (1 + h * 64) =
           (if \<exists>rest. spec_first_handedness_label r h = Some (CHR ''R'' # rest)
            then 1 else 0))) \<and>
   (gr_engine_result g \<and> h < min (unat (hand_landmarks_count g)) 2 \<longrightarrow>
      (\<exists>buf jNames. gr_pack g = Inr (buf, jNames) \<and> 1 + h * 65 < length buf \<and>
         buf ! (1 + h * 65) =
           (if \<exists>rest. spec_first_handedness_label g h = Some (CHR ''R'' # rest)
            then 1 else 0)))"
proof (intro conjI impI)
  assume a: "hl_engine_result r \<and> h < min (unat (hand_landmarks_count r)) 2"
  then have fit: "count_fits_int (hand_landmarks_count r)"
    by (simp add: hl_engine_result_def)
  from hl_pack_hand_of_result [OF fit] a
  obtain buf buf' where b: "hl_pack r = Inr buf"
    "length buf = 1 + min (unat (hand_landmarks_count r)) 2 * 64"
    "length buf' = length buf"
    "\<forall>k\<ge>1 + h * 64. k < length buf' \<longrightarrow> buf' ! k = 0"
    "\<forall>j<1 + h * 64 + 64. buf ! j = hl_pack_hand r (int h) buf' ! j"
    by blast
  from a have len: "1 + h * 64 + 64 \<le> length buf"
    unfolding b(2) by (intro stride_bound) simp
  with b(3) have len': "1 + h * 64 + 64 \<le> length buf'" by simp
  from b(5) have "buf ! (1 + h * 64) = hl_pack_hand r (int h) buf' ! (1 + h * 64)" by simp
  also have "\<dots> = handednessValue r (int h)"
    by (rule hl_pack_hand_contents(1) [OF len' b(4)])
  finally show "\<exists>buf. hl_pack r = Inr buf \<and> 1 + h * 64 < length buf \<and>
         buf ! (1 + h * 64) =
           (if \<exists>rest. spec_first_handedness_label r h = Some (CHR ''R'' # rest)
            then 1 else 0)"
    using a b(1) len handednessValue_spec [of r h] by simp
next
  assume a: "gr_engine_result g \<and> h < min (unat (hand_landmarks_count g)) 2"
  then have fit: "count_fits_int (hand_landmarks_count g)" and e: "hl_engine_result g"
    by (simp_all add: gr_engine_result_def hl_engine_result_def)
  from gr_pack_hand_of_result [OF fit] a
  obtain buf jNames bn' where b: "gr_pack g = Inr (buf, jNames)"
    "length buf = 1 + min (unat (hand_landmarks_count g)) 2 * 65"
    "length jNames = min (unat (hand_landmarks_count g)) 2"
    "length (fst bn') = length buf" "length (snd bn') = length jNames"
    "\<forall>k\<ge>1 + h * 65. k < length (fst bn') \<longrightarrow> fst bn' ! k = 0"
    "snd bn' ! h = None"
    "\<forall>j<1 + h * 65 + 65. buf ! j = fst (gr_pack_hand g (int h) bn') ! j"
    "jNames ! h = snd (gr_pack_hand g (int h) bn') ! h"
    by blast
  from a have len: "1 + h * 65 + 65 \<le> length buf"
    unfolding b(2) by (intro stride_bound) simp
  with b(4) have len': "1 + h * 65 + 65 \<le> length (fst bn')" by simp
  from a b(3,5) have hl: "h < length (snd bn')" by simp
  from b(8) have "buf ! (1 + h * 65) = fst (gr_pack_hand g (int h) bn') ! (1 + h * 65)" by simp
  also have "\<dots> = handednessValue g (int h)"
    by (rule gr_pack_hand_contents(1) [OF len' b(6) hl b(7)])
  finally show "\<exists>buf jNames. gr_pack g = Inr (buf, jNames) \<and> 1 + h * 65 < length buf \<and>
         buf ! (1 + h * 65) =
           (if \<exists>rest. spec_first_handedness_label g h = Some (CHR ''R'' # rest)
            then 1 else 0)"
    using b(1) len handednessValue_spec [OF e, of h] by simp
qed

text \<open>The first hand of the example is a right hand, the second a left hand.\<close>

theorem handedness_slot_witness:
  "hl_engine_result five_hands \<and> (0::nat) < min (unat (hand_landmarks_count five_hands)) 2 \<and>
   (\<exists>buf. hl_pack five_hands = Inr buf \<and> buf ! 1 = 1) \<and>
   (\<exists>buf. hl_pack five_hands = Inr buf \<and> buf ! 65 = 0) \<and>
   gr_engine_result five_gestures \<and>
   (0::nat) < min (unat (hand_landmarks_count five_gestures)) 2 \<and>
   (\<exists>buf jNames. gr_pack five_gestures = Inr (buf, jNames) \<and> buf ! 1 = 1)"
proof -
  have c: "hand_landmarks_count five_hands = 5" "hand_landmarks_count five_gestures = 5"
    "spec_first_handedness_label five_hands 0 = Some ''Right''"
    "spec_first_handedness_label five_gestures 0 = Some ''Right''"
    "spec_first_handedness_label five_hands 1 = Some ''Left''"
    "spec_first_handedness_label five_hands (Suc 0) = Some ''Left''"
    by (simp_all add: five_hands_def five_gestures_def spec_first_handedness_label_def
        right_hand_def left_hand_def)
  show ?thesis
    using handedness_slot [of five_hands 0 five_gestures]
      handedness_slot [of five_hands 1 five_gestures]
      five_hands_engine_result five_gestures_engine_result
    by (auto simp: c)
qed

subsection \<open>C4: what is delivered for no hands and for a failure\<close>

text \<open>
  C4 says that whenever a result reports no hand or the invocation failed, no buffer is
  built and the registered callback is invoked with a null marker, on the asynchronous
  path and on the synchronous one. On the synchronous path a failed recognition returns
  \<^verbatim>\<open>JNI_FALSE\<close> and invokes no callback at all: with the recognizer 43 and its callback
  registered, a recognition that fails writes one line to \<^verbatim>\<open>stderr\<close> and nothing else.
\<close>

theorem failed_recognition_invokes_no_callback:
  "gr_callback_object gr_active = Some 200 \<and> events gr_active = [] \<and>
   (\<exists>s'. nativeRecognizeGestureForVideo (kMpOk, 7, None) (3, no_hands, Some ''busy'')
            43 [0, 0, 0] 1 1 5 gr_active = Inr (False, s') \<and>
      events s' = [Stderr (''[JNI] GR err: busy'' @ [CHR 0x0A])])"
  by (simp add: gr_active_eq gr_callback_object_def nativeRecognizeGestureForVideo_def
      MpImageCreateFromUint8Data_def MpGestureRecognizerRecognizeForVideo_def kMpOk_def
      emit_def Let_def)

text \<open>
  C4, amended. With a callback registered: on the asynchronous path a failed status, an
  absent result or a result without hands builds no buffer, and the callback is invoked
  with null once the engine's thread has a runtime environment (not at all when the
  thread cannot be attached, or is attached and the runtime refuses the version asked
  for); on the synchronous path a result without hands invokes
  the callback with a null buffer and a null array of names and the call returns true,
  and a failed recognition invokes no callback and the call returns false. A failed
  asynchronous submit invokes no callback either.
\<close>

theorem null_marker_delivery:
  "(hl_callback_object s = Some obj \<and>
    (status \<noteq> kMpOk \<or> result = None \<or>
     (\<exists>r. result = Some r \<and> hand_landmarks_count r = 0)) \<longrightarrow>
      (\<exists>s'. hl_on_result version_ok attach_ok status result ts s = Inr s' \<and>
         events s' = events s @
           (if engine_thread_attached s
            then (if version_ok then [HlOnResult obj None ts] else [])
            else if attach_ok
            then [AttachCurrentThread, HlOnResult obj None ts, DetachCurrentThread]
            else []))) \<and>
   (gr_callback_object s = Some obj \<and> recognizerPtr \<in> recognizers s \<and>
    sint (width * height * 3) \<le> int (length pixelData) \<and>
    hand_landmarks_count gresult = 0 \<longrightarrow>
      (\<exists>s'. nativeRecognizeGestureForVideo (kMpOk, img, m1) (kMpOk, gresult, m2)
               recognizerPtr pixelData width height ts s = Inr (True, s') \<and>
         events s' = events s @ [GrOnResult obj None None ts])) \<and>
   (recognizerPtr \<in> recognizers s \<and>
    sint (width * height * 3) \<le> int (length pixelData) \<and> status \<noteq> kMpOk \<longrightarrow>
      (\<exists>s'. nativeRecognizeGestureForVideo (kMpOk, img, m1) (status, gresult, m2)
               recognizerPtr pixelData width height ts s = Inr (False, s') \<and>
         events s' = events s @
           [Stderr (''[JNI] GR err: '' @ (case m2 of Some m \<Rightarrow> m | None \<Rightarrow> ''?'') @
              [CHR 0x0A])])) \<and>
   (landmarkerPtr \<in> landmarkers s \<and>
    sint (width * height * 3) \<le> int (length pixelData) \<and> status \<noteq> kMpOk \<longrightarrow>
      (\<exists>s'. nativeDetectAsync (kMpOk, img) status landmarkerPtr pixelData width height ts s =
               Inr s' \<and> events s' = events s))"
  (is "(?h1 \<longrightarrow> ?c1) \<and> (?h2 \<longrightarrow> ?c2) \<and> (?h3 \<longrightarrow> ?c3) \<and> (?h4 \<longrightarrow> ?c4)")
proof (intro conjI)
  show "?h1 \<longrightarrow> ?c1"
  proof
    assume a: ?h1
    then have "hl_result_array status result = Inr None"
      by (intro hl_result_array_null) simp
    with a show ?c1
      by (auto simp: hl_on_result_def attach_jvm_def GetEnv_def hl_CallVoidMethod_def
          hl_callback_object_def emit_def Let_def
          split: if_splits option.splits sum.splits prod.splits)
  qed
  show "?h2 \<longrightarrow> ?c2"
    by (auto simp: nativeRecognizeGestureForVideo_def MpImageCreateFromUint8Data_def
        MpGestureRecognizerRecognizeForVideo_def gr_deliver_result_def gr_result_arrays_def
        gr_CallVoidMethod_def gr_callback_object_def emit_def Let_def
        split: option.splits)
  show "?h3 \<longrightarrow> ?c3"
    by (auto simp: nativeRecognizeGestureForVideo_def MpImageCreateFromUint8Data_def
        MpGestureRecognizerRecognizeForVideo_def emit_def Let_def)
  show "?h4 \<longrightarrow> ?c4"
    by (auto simp: nativeDetectAsync_def MpImageCreateFromUint8Data_def
        MpHandLandmarkerDetectAsync_def MpImageFree_def Let_def)
qed

text \<open>
  The landmarker's session told of a failure, and the recognizer's session given a
  result without hands, then a failure.
\<close>

theorem null_marker_delivery_witness:
  "hl_callback_object hl_active = Some 100 \<and>
   (\<exists>s'. hl_on_result True True 3 None 5 hl_active = Inr s' \<and>
      events s' = [AttachCurrentThread, HlOnResult 100 None 5, DetachCurrentThread]) \<and>
   gr_callback_object gr_active = Some 200 \<and> (43::nat) \<in> recognizers gr_active \<and>
   hand_landmarks_count no_hands = 0 \<and>
   (\<exists>s'. nativeRecognizeGestureForVideo (kMpOk, 7, None) (kMpOk, no_hands, None)
             43 [0, 0, 0] 1 1 5 gr_active = Inr (True, s') \<and>
      events s' = [GrOnResult 200 None None 5]) \<and>
   (\<exists>s'. nativeRecognizeGestureForVideo (kMpOk, 7, None) (3, no_hands, Some ''busy'')
             43 [0, 0, 0] 1 1 5 gr_active = Inr (False, s') \<and>
      events s' = [Stderr (''[JNI] GR err: busy'' @ [CHR 0x0A])]) \<and>
   (42::nat) \<in> landmarkers hl_active \<and>
   (\<exists>s'. nativeDetectAsync (kMpOk, 7) 3 42 [0, 0, 0] 1 1 5 hl_active = Inr s' \<and>
      events s' = [])"
proof -
  have c: "hl_callback_object hl_active = Some 100" "\<not> engine_thread_attached hl_active"
    "events hl_active = []" "gr_callback_object gr_active = Some 200"
    "recognizers gr_active = {43}" "events gr_active = []"
    "hand_landmarks_count no_hands = 0" "landmarkers hl_active = {42}"
    by (simp_all add: hl_active_eq gr_active_eq hl_callback_object_def gr_callback_object_def
        no_hands_def)
  show ?thesis
    using null_marker_delivery [where s = hl_active and obj = 100 and status = 3
        and result = None and version_ok = True and attach_ok = True and ts = 5]
      null_marker_delivery [where s = gr_active and obj = 200 and status = 3
        and recognizerPtr = 43 and width = 1 and height = 1 and pixelData = "[0, 0, 0]"
        and gresult = no_hands and img = 7 and ?m1.0 = None and ?m2.0 = "Some ''busy''"
        and ts = 5]
      null_marker_delivery [where s = gr_active and obj = 200 and status = 3
        and recognizerPtr = 43 and width = 1 and height = 1 and pixelData = "[0, 0, 0]"
        and gresult = no_hands and img = 7 and ?m1.0 = None and ?m2.0 = None and ts = 5]
      null_marker_delivery [where s = hl_active and obj = 100 and status = 3
        and landmarkerPtr = 42 and width = 1 and height = 1 and pixelData = "[0, 0, 0]"
        and img = 7 and ts = 5]
    by (simp add: c kMpOk_def)
qed

subsection \<open>C5: the gesture score and the gesture name\<close>

text \<open>
  C5. In the gesture recognizer, for a packed hand \<open>h\<close> at base \<open>1 + h * 65\<close>: when the
  hand has a gesture category, the score of the first one stands in the slot
  \<open>base + 1\<close> and its label at index \<open>h\<close> of the array of names; otherwise the slot is
  0 and the name at index \<open>h\<close> is null.
\<close>

theorem gesture_score_and_label:
  "gr_engine_result g \<and> h < min (unat (hand_landmarks_count g)) 2 \<longrightarrow>
     (\<exists>buf jNames. gr_pack g = Inr (buf, jNames) \<and>
        1 + h * 65 + 1 < length buf \<and> h < length jNames \<and>
        (if h < length (gestures g) \<and> categories (gestures g ! h) \<noteq> []
         then buf ! (1 + h * 65 + 1) = score (hd (categories (gestures g ! h))) \<and>
              jNames ! h = category_name (hd (categories (gestures g ! h)))
         else buf ! (1 + h * 65 + 1) = 0 \<and> jNames ! h = None))"
proof
  assume a: "gr_engine_result g \<and> h < min (unat (hand_landmarks_count g)) 2"
  then have fit: "count_fits_int (hand_landmarks_count g)" and e: "gr_engine_result g"
    by (simp_all add: gr_engine_result_def hl_engine_result_def)
  from gr_pack_hand_of_result [OF fit] a
  obtain buf jNames bn' where b: "gr_pack g = Inr (buf, jNames)"
    "length buf = 1 + min (unat (hand_landmarks_count g)) 2 * 65"
    "length jNames = min (unat (hand_landmarks_count g)) 2"
    "length (fst bn') = length buf" "length (snd bn') = length jNames"
    "\<forall>k\<ge>1 + h * 65. k < length (fst bn') \<longrightarrow> fst bn' ! k = 0"
    "snd bn' ! h = None"
    "\<forall>j<1 + h * 65 + 65. buf ! j = fst (gr_pack_hand g (int h) bn') ! j"
    "jNames ! h = snd (gr_pack_hand g (int h) bn') ! h"
    by blast
  from a have len: "1 + h * 65 + 65 \<le> length buf"
    unfolding b(2) by (intro stride_bound) simp
  with b(4) have len': "1 + h * 65 + 65 \<le> length (fst bn')" by simp
  from a b(3,5) have hl: "h < length (snd bn')" by simp
  from b(8) have "buf ! (1 + h * 65 + 1) = fst (gr_pack_hand g (int h) bn') ! (1 + h * 65 + 1)"
    by simp
  also have "\<dots> = fst (gesture_of g (int h))"
    by (rule gr_pack_hand_contents(2) [OF len' b(6) hl b(7)])
  finally have sc: "buf ! (1 + h * 65 + 1) = fst (gesture_of g (int h))" .
  have "jNames ! h = snd (gesture_of g (int h))"
    unfolding b(9) by (rule gr_pack_hand_contents(3) [OF len' b(6) hl b(7)])
  with sc a b(1,3) len show "\<exists>buf jNames. gr_pack g = Inr (buf, jNames) \<and>
        1 + h * 65 + 1 < length buf \<and> h < length jNames \<and>
        (if h < length (gestures g) \<and> categories (gestures g ! h) \<noteq> []
         then buf ! (1 + h * 65 + 1) = score (hd (categories (gestures g ! h))) \<and>
              jNames ! h = category_name (hd (categories (gestures g ! h)))
         else buf ! (1 + h * 65 + 1) = 0 \<and> jNames ! h = None)"
    by (simp add: gesture_of_spec [OF e])
qed

text \<open>The first hand of the example shows a thumb, the second has no gesture.\<close>

theorem gesture_score_and_label_witness:
  "gr_engine_result five_gestures \<and>
   (0::nat) < min (unat (hand_landmarks_count five_gestures)) 2 \<and>
   (\<exists>buf jNames. gr_pack five_gestures = Inr (buf, jNames) \<and>
      buf ! 2 = 0.75 \<and> jNames ! 0 = Some ''Thumb_Up'') \<and>
   (\<exists>buf jNames. gr_pack five_gestures = Inr (buf, jNames) \<and>
      buf ! 67 = 0 \<and> jNames ! 1 = None)"
proof -
  have c: "hand_landmarks_count five_gestures = 5"
    "length (gestures five_gestures) = 5"
    "categories (gestures five_gestures ! 0) =
       [\<lparr>score = 0.75, category_name = Some ''Thumb_Up''\<rparr>]"
    "categories (gestures five_gestures ! 1) = []"
    "categories (gestures five_gestures ! Suc 0) = []"
    by (simp_all add: five_gestures_def thumb_up_def no_category_def)
  show ?thesis
    using gesture_score_and_label [of five_gestures 0]
      gesture_score_and_label [of five_gestures 1] five_gestures_engine_result
    by (auto simp: c simp flip: numeral_2_eq_2)
qed

subsection \<open>C6: one callback reference, replaced by a creation\<close>

text \<open>
  C6. At most one callback reference is held at a time: the live global references are
  the ones the shim holds (\<open>refs_inv\<close>), and a creation keeps it so. A creation
  releases the reference held before, which is no longer alive afterwards, and holds a
  new reference to the new callback, which is the object the deliveries reach when its
  class has the method; every delivery that follows, in any number, reaches the new
  callback only.
\<close>

theorem callback_replaced_on_create:
  "(refs_inv s \<and> nativeCreateLandmarker method_found answer modelPath callback s = (h, s') \<longrightarrow>
      refs_inv s' \<and>
      (\<exists>r. g_hl_callback s' = Some r \<and> map_of (global_refs s') r = Some callback) \<and>
      (\<forall>r0. g_hl_callback s = Some r0 \<longrightarrow> r0 \<notin> fst ` set (global_refs s')) \<and>
      (method_found \<and> g_jvm s \<noteq> None \<longrightarrow> hl_callback_object s' = Some callback) \<and>
      (\<forall>ds s''. hl_deliveries ds s' = Inr s'' \<longrightarrow>
         (\<exists>new. events s'' = events s' @ new \<and>
            (\<forall>obj buf t. HlOnResult obj buf t \<in> set new \<longrightarrow> obj = callback)))) \<and>
   (refs_inv s \<and>
    nativeCreateGestureRecognizer method_found answer modelPath numHands callback s = (h, s') \<longrightarrow>
      refs_inv s' \<and>
      (\<exists>r. g_gr_callback s' = Some r \<and> map_of (global_refs s') r = Some callback) \<and>
      (\<forall>r0. g_gr_callback s = Some r0 \<longrightarrow> r0 \<notin> fst ` set (global_refs s')) \<and>
      (method_found \<longrightarrow> gr_callback_object s' = Some callback) \<and>
      (\<forall>ds s''. gr_deliveries ds s' = Inr s'' \<longrightarrow>
         (\<exists>new. events s'' = events s' @ new \<and>
            (\<forall>obj buf names t. GrOnResult obj buf names t \<in> set new \<longrightarrow> obj = callback))))"
  (is "(?h1 \<longrightarrow> ?c1) \<and> (?h2 \<longrightarrow> ?c2)")
proof (rule conjI)
  show "?h1 \<longrightarrow> ?c1"
  proof
    assume a: ?h1
    then have inv: "distinct (map fst (global_refs s))"
      "list_all (\<lambda>p. fst p < next_ref s) (global_refs s)"
      "set (map fst (global_refs s)) = set_option (g_hl_callback s) \<union> set_option (g_gr_callback s)"
      "g_hl_callback s = None \<or> g_hl_callback s \<noteq> g_gr_callback s"
      by (simp_all add: refs_inv_def)
    from a have cr: "nativeCreateLandmarker method_found answer modelPath callback s = (h, s')"
      by simp
    note r = nativeCreateLandmarker_refs [OF cr]
    note p = replace_ref [OF inv]
    have i: "refs_inv s'"
      unfolding refs_inv_def r using p(1-4) by auto
    have m: "map_of (global_refs s') (next_ref s) = Some callback"
      unfolding r by (rule p(5))
    have o: "hl_callback_object s' = None \<or> hl_callback_object s' = Some callback"
      using m r(3) by (auto simp: hl_callback_object_def split: option.splits)
    have f: "method_found \<and> g_jvm s \<noteq> None \<longrightarrow> hl_callback_object s' = Some callback"
      using m r(3,5,6) by (auto simp: hl_callback_object_def split: option.splits)
    have d: "\<exists>new. events s'' = events s' @ new \<and>
            (\<forall>obj buf t. HlOnResult obj buf t \<in> set new \<longrightarrow> obj = callback)"
      if "hl_deliveries ds s' = Inr s''" for ds s''
      using hl_deliveries_reach [OF that] o by auto
    from i m r(3) p(6) d f show ?c1
      unfolding r(1) by blast
  qed
  show "?h2 \<longrightarrow> ?c2"
  proof
    assume a: ?h2
    then have inv: "distinct (map fst (global_refs s))"
      "list_all (\<lambda>p. fst p < next_ref s) (global_refs s)"
      "set (map fst (global_refs s)) = set_option (g_gr_callback s) \<union> set_option (g_hl_callback s)"
      "g_gr_callback s = None \<or> g_gr_callback s \<noteq> g_hl_callback s"
      by (auto simp: refs_inv_def)
    from a have cr: "nativeCreateGestureRecognizer method_found answer modelPath numHands
        callback s = (h, s')"
      by simp
    note r = nativeCreateGestureRecognizer_refs [OF cr]
    note p = replace_ref [OF inv]
    have i: "refs_inv s'"
      unfolding refs_inv_def r using p(1-4) by auto
    have m: "map_of (global_refs s') (next_ref s) = Some callback"
      unfolding r by (rule p(5))
    have o: "gr_callback_object s' = None \<or> gr_callback_object s' = Some callback"
      using m r(3) by (auto simp: gr_callback_object_def split: option.splits)
    have f: "method_found \<longrightarrow> gr_callback_object s' = Some callback"
      using m r(3,5) by (auto simp: gr_callback_object_def split: option.splits)
    have d: "\<exists>new. events s'' = events s' @ new \<and>
            (\<forall>obj buf names t. GrOnResult obj buf names t \<in> set new \<longrightarrow> obj = callback)"
      if "gr_deliveries ds s' = Inr s''" for ds s''
      using gr_deliveries_reach [OF that] o by auto
    from i m r(3) p(6) d f show ?c2
      unfolding r(1) by blast
  qed
qed

text \<open>
  A second landmarker created with the callback object 101 while the first session
  holds the object 100, and the same for the recognizer.
\<close>

theorem callback_replaced_on_create_witness:
  "refs_inv hl_active \<and> g_hl_callback hl_active = Some 1 \<and>
   (\<exists>s'. nativeCreateLandmarker True (kMpOk, 44, None) ''hand.task'' 101 hl_active = (44, s') \<and>
      refs_inv s' \<and> g_hl_callback s' = Some 2 \<and> global_refs s' = [(2, 101)] \<and>
      (\<exists>s''. hl_deliveries [(True, True, 3, None, 5)] s' = Inr s'' \<and>
         events s'' = [AttachCurrentThread, HlOnResult 101 None 5, DetachCurrentThread])) \<and>
   refs_inv gr_active \<and> g_gr_callback gr_active = Some 1 \<and>
   (\<exists>s'. nativeCreateGestureRecognizer True (kMpOk, 45, None) ''gesture.task'' 2 201
            gr_active = (45, s') \<and>
      refs_inv s' \<and> g_gr_callback s' = Some 2 \<and> global_refs s' = [(2, 201)] \<and>
      (\<exists>s''. gr_deliveries [(Some no_hands, 5)] s' = Inr s'' \<and>
         events s'' = [GrOnResult 201 None None 5]))"
proof -
  define s1 where "s1 = hl_active\<lparr>g_hl_callback := Some 2, global_refs := [(2, 101)],
    next_ref := 3, landmarkers := {42, 44}\<rparr>"
  define s2 where "s2 = gr_active\<lparr>g_gr_callback := Some 2, global_refs := [(2, 201)],
    next_ref := 3, recognizers := {43, 45}\<rparr>"
  have c1: "nativeCreateLandmarker True (kMpOk, 44, None) ''hand.task'' 101 hl_active = (44, s1)"
    by (auto simp: s1_def hl_active_eq nativeCreateLandmarker_def NewGlobalRef_def
        DeleteGlobalRef_def kMpOk_def Let_def)
  have c2: "nativeCreateGestureRecognizer True (kMpOk, 45, None) ''gesture.task'' 2 201
      gr_active = (45, s2)"
    by (auto simp: s2_def gr_active_eq nativeCreateGestureRecognizer_def NewGlobalRef_def
        DeleteGlobalRef_def kMpOk_def Let_def)
  have i1: "refs_inv s1"
    using callback_replaced_on_create [where s = hl_active and method_found = True
        and answer = "(kMpOk, 44, None)" and modelPath = "''hand.task''" and callback = 101
        and h = 44 and s' = s1] refs_inv_hl_active c1
    by simp
  have i2: "refs_inv s2"
    using callback_replaced_on_create [where s = gr_active and method_found = True
        and answer = "(kMpOk, 45, None)" and modelPath = "''gesture.task''" and callback = 201
        and numHands = 2 and h = 45 and s' = s2] refs_inv_gr_active c2
    by simp
  have d1: "\<exists>s''. hl_deliveries [(True, True, 3, None, 5)] s1 = Inr s'' \<and>
         events s'' = [AttachCurrentThread, HlOnResult 101 None 5, DetachCurrentThread]"
    by (simp add: s1_def hl_active_eq hl_on_result_def attach_jvm_def GetEnv_def
        hl_result_array_def hl_CallVoidMethod_def emit_def Let_def)
  have d2: "\<exists>s''. gr_deliveries [(Some no_hands, 5)] s2 = Inr s'' \<and>
         events s'' = [GrOnResult 201 None None 5]"
    by (simp add: s2_def gr_active_eq gr_deliver_result_def gr_result_arrays_def
        gr_CallVoidMethod_def no_hands_def emit_def)
  have g: "g_hl_callback s1 = Some 2" "global_refs s1 = [(2, 101)]"
    "g_gr_callback s2 = Some 2" "global_refs s2 = [(2, 201)]"
    "g_hl_callback hl_active = Some 1" "g_gr_callback gr_active = Some 1"
    by (simp_all add: s1_def s2_def hl_active_eq gr_active_eq)
  show ?thesis
    using refs_inv_hl_active refs_inv_gr_active c1 c2 i1 i2 d1 d2 g by blast
qed

subsection \<open>C7: the image of a failed invocation\<close>

text \<open>
  C7 says that when the invocation that consumes the image fails, the shim releases the
  image, on the asynchronous and on the synchronous path. The asynchronous submit does
  (line 287); the synchronous call returns at line 397 without releasing it. The same
  frame, with the image 7 created and the invocation failing with status 3: the
  landmarker's session is left as it was, the recognizer's session still owns the image.
\<close>

theorem failed_recognition_leaks_the_image:
  "nativeDetectAsync (kMpOk, 7) 3 42 [0, 0, 0] 1 1 5 hl_active = Inr hl_active \<and>
   nativeRecognizeGestureForVideo (kMpOk, 7, None) (3, no_hands, Some ''busy'') 43
     [0, 0, 0] 1 1 5 gr_active =
   Inr (False, gr_active\<lparr>owned_images := [7],
                 events := [Stderr (''[JNI] GR err: busy'' @ [CHR 0x0A])]\<rparr>)"
  by (simp add: hl_active_eq gr_active_eq nativeDetectAsync_def
      nativeRecognizeGestureForVideo_def MpImageCreateFromUint8Data_def
      MpHandLandmarkerDetectAsync_def MpGestureRecognizerRecognizeForVideo_def MpImageFree_def
      kMpOk_def emit_def Let_def)

subsection \<open>C8: the attachment of the engine's thread\<close>

text \<open>
  C8. Whenever the callback of the landmarker returns to the engine, the engine's
  thread is attached exactly if it was before, and no local reference of the call is
  left. When the runtime or the callback is not set nothing happens. Otherwise, on a
  thread already attached the callback is invoked and the thread is not detached; on a
  detached thread the shim attaches it, invokes the callback and detaches it, in this
  order; when no environment can be had, nothing is invoked and nothing stays attached.
  With a callback registered and a result of the engine, the callback does return.
\<close>

theorem attach_is_scoped:
  "(\<forall>s'. hl_on_result version_ok attach_ok status result ts s = Inr s' \<longrightarrow>
      engine_thread_attached s' = engine_thread_attached s \<and>
      engine_thread_local_refs s' = engine_thread_local_refs s \<and>
      (if g_jvm s = None \<or> g_hl_callback s = None then events s' = events s
       else if engine_thread_attached s
       then (if version_ok
             then \<exists>obj jResult. hl_callback_object s = Some obj \<and>
                    events s' = events s @ [HlOnResult obj jResult ts]
             else events s' = events s)
       else (if attach_ok
             then \<exists>obj jResult. hl_callback_object s = Some obj \<and>
                    events s' = events s @
                      [AttachCurrentThread, HlOnResult obj jResult ts, DetachCurrentThread]
             else events s' = events s))) \<and>
   (hl_callback_object s \<noteq> None \<and>
    (case result of Some r \<Rightarrow> hl_engine_result r | None \<Rightarrow> True) \<longrightarrow>
      (\<exists>s'. hl_on_result version_ok attach_ok status result ts s = Inr s'))"
  (is "(\<forall>s'. ?run s' \<longrightarrow> ?scoped s') \<and> (?registered \<longrightarrow> ?returns)")
proof (rule conjI)
  show "\<forall>s'. ?run s' \<longrightarrow> ?scoped s'"
  proof (intro allI impI)
    fix s'
    assume "?run s'"
    then show "?scoped s'"
      by (auto simp: hl_on_result_def attach_jvm_def GetEnv_def hl_CallVoidMethod_def
          hl_callback_object_def emit_def Let_def
          split: if_splits option.splits sum.splits prod.splits)
  qed
  show "?registered \<longrightarrow> ?returns"
  proof
    assume a: ?registered
    then obtain jResult where "hl_result_array status result = Inr jResult"
      using hl_result_array_total by blast
    with a show ?returns
      by (auto simp: hl_on_result_def attach_jvm_def GetEnv_def hl_CallVoidMethod_def
          hl_callback_object_def emit_def Let_def
          split: if_splits option.splits sum.splits prod.splits)
  qed
qed

text \<open>A result of five hands delivered on a detached thread to the session of object 100.\<close>

theorem attach_is_scoped_witness:
  "hl_callback_object hl_active = Some 100 \<and> hl_engine_result five_hands \<and>
   (\<exists>s'. hl_on_result True True kMpOk (Some five_hands) 5 hl_active = Inr s' \<and>
      \<not> engine_thread_attached s' \<and> engine_thread_local_refs s' = 0 \<and>
      (\<exists>jResult. events s' =
         [AttachCurrentThread, HlOnResult 100 jResult 5, DetachCurrentThread]))"
proof -
  have c: "hl_callback_object hl_active = Some 100" "g_jvm hl_active = Some JavaVM"
    "g_hl_callback hl_active = Some 1" "\<not> engine_thread_attached hl_active"
    "engine_thread_local_refs hl_active = 0" "events hl_active = []"
    by (simp_all add: hl_active_eq hl_callback_object_def)
  show ?thesis
    using attach_is_scoped [of True True kMpOk "Some five_hands" 5 hl_active]
      five_hands_engine_result
    by (auto simp: c)
qed

subsection \<open>C9: closing a session, once and twice\<close>

text \<open>
  C9 says that close is idempotent: closing a closed session is a safe no-op. The shim
  keeps no record of the handles it has closed and hands every handle it is given to
  the engine's close: the second close of the landmarker 42, and of the recognizer 43,
  reaches the engine with the pointer to an instance that has been released.
\<close>

theorem second_close_is_not_a_no_op:
  "(case nativeCloseLandmarker 42 hl_active of
      Inl f \<Rightarrow> Inl f
    | Inr s \<Rightarrow> nativeCloseLandmarker 42 s) = Inl InvalidHandle \<and>
   (case nativeCloseGestureRecognizer 43 gr_active of
      Inl f \<Rightarrow> Inl f
    | Inr s \<Rightarrow> nativeCloseGestureRecognizer 43 s) = Inl InvalidHandle"
  by (simp add: hl_active_eq gr_active_eq nativeCloseLandmarker_def MpHandLandmarkerClose_def
      nativeCloseGestureRecognizer_def MpGestureRecognizerClose_def DeleteGlobalRef_def)

text \<open>
  C9, amended. Closing a live session releases the engine's instance and the callback
  reference that is held, which is no longer alive afterwards, and clears it together
  with its method id. The release of the callback reference is guarded: a close that finds no reference held
  releases the instance and nothing else. The engine's close is not guarded: closing
  the same handle again hands the engine the released instance.
\<close>

theorem close_releases_instance_and_callback:
  "(refs_inv s \<and> landmarkerPtr \<in> landmarkers s \<longrightarrow>
      (\<exists>s'. nativeCloseLandmarker landmarkerPtr s = Inr s' \<and>
         landmarkers s' = landmarkers s - {landmarkerPtr} \<and>
         g_hl_callback s' = None \<and>
         (g_hl_callback s \<noteq> None \<longrightarrow> g_hl_onResult s' = None) \<and> refs_inv s' \<and>
         (\<forall>r0. g_hl_callback s = Some r0 \<longrightarrow> r0 \<notin> fst ` set (global_refs s')) \<and>
         nativeCloseLandmarker landmarkerPtr s' = Inl InvalidHandle \<and>
         (\<forall>other\<in>landmarkers s'.
            nativeCloseLandmarker other s' =
              Inr (s'\<lparr>landmarkers := landmarkers s' - {other}\<rparr>)))) \<and>
   (refs_inv s \<and> recognizerPtr \<in> recognizers s \<longrightarrow>
      (\<exists>s'. nativeCloseGestureRecognizer recognizerPtr s = Inr s' \<and>
         recognizers s' = recognizers s - {recognizerPtr} \<and>
         g_gr_callback s' = None \<and>
         (g_gr_callback s \<noteq> None \<longrightarrow> g_gr_onResult s' = None) \<and> refs_inv s' \<and>
         (\<forall>r0. g_gr_callback s = Some r0 \<longrightarrow> r0 \<notin> fst ` set (global_refs s')) \<and>
         nativeCloseGestureRecognizer recognizerPtr s' = Inl InvalidHandle \<and>
         (\<forall>other\<in>recognizers s'.
            nativeCloseGestureRecognizer other s' =
              Inr (s'\<lparr>recognizers := recognizers s' - {other}\<rparr>))))"
  (is "(?h1 \<longrightarrow> ?c1) \<and> (?h2 \<longrightarrow> ?c2)")
proof (rule conjI)
  show "?h1 \<longrightarrow> ?c1"
  proof
    assume a: ?h1
    then have inv: "distinct (map fst (global_refs s))"
      "list_all (\<lambda>p. fst p < next_ref s) (global_refs s)"
      "set (map fst (global_refs s)) = set_option (g_hl_callback s) \<union> set_option (g_gr_callback s)"
      "g_hl_callback s = None \<or> g_hl_callback s \<noteq> g_gr_callback s"
      by (simp_all add: refs_inv_def)
    from a have live: "landmarkerPtr \<in> landmarkers s" by simp
    note p = close_ref [OF inv]
    show ?c1
      unfolding nativeCloseLandmarker_live [OF live]
      using p
      by (auto simp: refs_inv_def nativeCloseLandmarker_def MpHandLandmarkerClose_def)
  qed
  show "?h2 \<longrightarrow> ?c2"
  proof
    assume a: ?h2
    then have inv: "distinct (map fst (global_refs s))"
      "list_all (\<lambda>p. fst p < next_ref s) (global_refs s)"
      "set (map fst (global_refs s)) = set_option (g_gr_callback s) \<union> set_option (g_hl_callback s)"
      "g_gr_callback s = None \<or> g_gr_callback s \<noteq> g_hl_callback s"
      by (auto simp: refs_inv_def)
    from a have live: "recognizerPtr \<in> recognizers s" by simp
    note p = close_ref [OF inv]
    show ?c2
      unfolding nativeCloseGestureRecognizer_live [OF live]
      using p
      by (auto simp: refs_inv_def nativeCloseGestureRecognizer_def
          MpGestureRecognizerClose_def)
  qed
qed

text \<open>The two example sessions, closed.\<close>

theorem close_releases_instance_and_callback_witness:
  "refs_inv hl_active \<and> (42::nat) \<in> landmarkers hl_active \<and>
   (\<exists>s'. nativeCloseLandmarker 42 hl_active = Inr s' \<and> landmarkers s' = {} \<and>
      g_hl_callback s' = None \<and> global_refs s' = [] \<and>
      nativeCloseLandmarker 42 s' = Inl InvalidHandle) \<and>
   refs_inv gr_active \<and> (43::nat) \<in> recognizers gr_active \<and>
   (\<exists>s'. nativeCloseGestureRecognizer 43 gr_active = Inr s' \<and> recognizers s' = {} \<and>
      g_gr_callback s' = None \<and> global_refs s' = [] \<and>
      nativeCloseGestureRecognizer 43 s' = Inl InvalidHandle)"
proof -
  have c: "landmarkers hl_active = {42}" "recognizers gr_active = {43}"
    "g_hl_callback hl_active = Some 1" "g_gr_callback gr_active = Some 1"
    "global_refs hl_active = [(1, 100)]" "global_refs gr_active = [(1, 200)]"
    by (simp_all add: hl_active_eq gr_active_eq)
  from close_releases_instance_and_callback [where s = hl_active and landmarkerPtr = 42
      and recognizerPtr = 0]
  obtain s1 where s1: "nativeCloseLandmarker 42 hl_active = Inr s1"
    "landmarkers s1 = landmarkers hl_active - {42}" "g_hl_callback s1 = None" "refs_inv s1"
    "nativeCloseLandmarker 42 s1 = Inl InvalidHandle"
    using refs_inv_hl_active by (auto simp: c)
  from close_releases_instance_and_callback [where s = gr_active and landmarkerPtr = 0
      and recognizerPtr = 43]
  obtain s2 where s2: "nativeCloseGestureRecognizer 43 gr_active = Inr s2"
    "recognizers s2 = recognizers gr_active - {43}" "g_gr_callback s2 = None" "refs_inv s2"
    "nativeCloseGestureRecognizer 43 s2 = Inl InvalidHandle"
    using refs_inv_gr_active by (auto simp: c)
  have "global_refs s1 = []"
    using s1(1) by (auto simp: nativeCloseLandmarker_live c)
  moreover have "global_refs s2 = []"
    using s2(1) by (auto simp: nativeCloseGestureRecognizer_live c)
  ultimately show ?thesis
    using s1 s2 refs_inv_hl_active refs_inv_gr_active by (simp add: c)
qed

subsection \<open>C10: the size of the pixel buffer\<close>

text \<open>
  C10 says that a pixel buffer shorter than \<open>width * height * 3\<close> makes the call fail
  without a read beyond the buffer. The shim never looks at the length of the buffer: it
  tells the engine that the buffer holds \<open>width * height * 3\<close> bytes. An empty buffer
  with a frame of one pixel, and an engine that accepts the size it is told: three bytes
  are read from a buffer that has none.
\<close>

theorem short_buffer_is_read_past_its_end:
  "nativeDetectAsync (kMpOk, 7) kMpOk 42 [] 1 1 5 hl_active = Inl BufferOverread \<and>
   nativeRecognizeGestureForVideo (kMpOk, 7, None) (kMpOk, no_hands, None) 43 [] 1 1 5
     gr_active = Inl BufferOverread"
  by (simp add: hl_active_eq gr_active_eq nativeDetectAsync_def
      nativeRecognizeGestureForVideo_def MpImageCreateFromUint8Data_def kMpOk_def)

text \<open>
  C10, amended. The check of the size is the engine's: when the engine's image creation
  reports a failure, the call fails, whatever the length of the buffer, and leaves the
  state as it was (the synchronous call writes a line to \<^verbatim>\<open>stderr\<close> and returns
  false); when the engine accepts the frame and the buffer is shorter than
  \<open>width * height * 3\<close>, the buffer is read past its end; with a buffer long enough
  and a live landmarker the asynchronous call returns.
\<close>

theorem frame_size_is_the_engines_to_check:
  "(fst created \<noteq> kMpOk \<longrightarrow>
      nativeDetectAsync created submitted landmarkerPtr pixelData width height ts s = Inr s) \<and>
   (created_status \<noteq> kMpOk \<longrightarrow>
      (\<exists>line. nativeRecognizeGestureForVideo (created_status, img, m1) recognized recognizerPtr
                 pixelData width height ts s = Inr (False, emit (Stderr line) s))) \<and>
   (fst created = kMpOk \<and> int (length pixelData) < sint (width * height * 3) \<longrightarrow>
      nativeDetectAsync created submitted landmarkerPtr pixelData width height ts s =
        Inl BufferOverread) \<and>
   (int (length pixelData) < sint (width * height * 3) \<longrightarrow>
      nativeRecognizeGestureForVideo (kMpOk, img, m1) recognized recognizerPtr
        pixelData width height ts s = Inl BufferOverread) \<and>
   (fst created = kMpOk \<and> sint (width * height * 3) \<le> int (length pixelData) \<and>
    landmarkerPtr \<in> landmarkers s \<longrightarrow>
      (\<exists>s'. nativeDetectAsync created submitted landmarkerPtr pixelData width height ts s =
               Inr s'))"
  by (cases created; cases recognized)
     (auto simp: nativeDetectAsync_def nativeRecognizeGestureForVideo_def
        MpImageCreateFromUint8Data_def MpHandLandmarkerDetectAsync_def Let_def)

text \<open>An engine that refuses the frame, and one that accepts it, with and without pixels.\<close>

theorem frame_size_is_the_engines_to_check_witness:
  "fst (3::int, 0::nat) \<noteq> kMpOk \<and>
   nativeDetectAsync (3, 0) kMpOk 42 [] 1 1 5 hl_active = Inr hl_active \<and>
   (\<exists>line. nativeRecognizeGestureForVideo (3, 0, None) (kMpOk, no_hands, None) 43
              [] 1 1 5 gr_active = Inr (False, emit (Stderr line) gr_active)) \<and>
   int (length ([]::jbyte list)) < sint (1 * 1 * 3 :: jint) \<and>
   nativeDetectAsync (kMpOk, 7) kMpOk 42 [] 1 1 5 hl_active = Inl BufferOverread \<and>
   sint (1 * 1 * 3 :: jint) \<le> int (length [0, 0, 0 :: jbyte]) \<and>
   (42::nat) \<in> landmarkers hl_active \<and>
   (\<exists>s'. nativeDetectAsync (kMpOk, 7) kMpOk 42 [0, 0, 0] 1 1 5 hl_active = Inr s')"
proof -
  have c: "landmarkers hl_active = {42}" by (simp add: hl_active_eq)
  show ?thesis
    using frame_size_is_the_engines_to_check [where created = "(3, 0)" and submitted = kMpOk
        and landmarkerPtr = 42 and pixelData = "[]" and width = 1 and height = 1 and ts = 5
        and s = hl_active and created_status = 3 and img = 0 and ?m1.0 = None]
      frame_size_is_the_engines_to_check [where created_status = 3 and img = 0
        and ?m1.0 = None and recognized = "(kMpOk, no_hands, None)" and recognizerPtr = 43
        and pixelData = "[]" and width = 1 and height = 1 and ts = 5 and s = gr_active
        and created = "(3, 0)"]
      frame_size_is_the_engines_to_check [where created = "(kMpOk, 7)" and submitted = kMpOk
        and landmarkerPtr = 42 and pixelData = "[]" and width = 1 and height = 1 and ts = 5
        and s = hl_active and created_status = 3 and img = 0 and ?m1.0 = None]
      frame_size_is_the_engines_to_check [where created = "(kMpOk, 7)" and submitted = kMpOk
        and landmarkerPtr = 42 and pixelData = "[0, 0, 0]" and width = 1 and height = 1
        and ts = 5 and s = hl_active and created_status = 3 and img = 0 and ?m1.0 = None]
    by (simp add: c kMpOk_def)
qed

end
